theory Spec2Isabelle
  imports Main "HOL-Library.Sublist" "HOL-Library.Monad_Syntax"
begin

section \<open>Values of the JavaScript runtime\<close>

text \<open>
  Webhook payloads, rule condition trees and rule action lists are untyped (\<open>any\<close>) in
  the source, so they are modelled as JSON values. Numbers are integers (ids, counters,
  timestamps); \<open>JUndef\<close> is JavaScript's \<open>undefined\<close>. An object is the list of its
  entries in enumeration order, looked up by \<open>map_of\<close>.
\<close>

datatype json =
    JUndef
  | JNull
  | JBool bool
  | JNum int
  | JStr string
  | JArr "json list"
  | JObj "(string \<times> json) list"

text \<open>
  A run-time \<open>TypeError\<close> (property of \<open>null\<close>/\<open>undefined\<close>, call of a non-function,
  iteration over a non-iterable, conversion of an object without usable \<open>toString\<close>) is
  the value \<open>None\<close> of the pure expression layer.
\<close>

definition truthy :: "json \<Rightarrow> bool" where
  "truthy v = (case v of
      JUndef \<Rightarrow> False
    | JNull \<Rightarrow> False
    | JBool b \<Rightarrow> b
    | JNum n \<Rightarrow> n \<noteq> 0
    | JStr s \<Rightarrow> s \<noteq> []
    | JArr _ \<Rightarrow> True
    | JObj _ \<Rightarrow> True)"

definition nullish :: "json \<Rightarrow> bool" where
  "nullish v = (v = JUndef \<or> v = JNull)"

text \<open>\<open>a || b\<close> on values.\<close>

definition js_or :: "json \<Rightarrow> json \<Rightarrow> json" where
  "js_or a b = (if truthy a then a else b)"

text \<open>
  \<open>x.p\<close> for the property names the source reads (none of them is a method or accessor
  of a prototype, except \<open>length\<close>, which \<open>js_length\<close> reads, and \<open>values\<close> of an
  array, whose element \<open>[0]\<close> is \<open>undefined\<close> like that of a missing property).
\<close>

definition getProp :: "json \<Rightarrow> string \<Rightarrow> json option" where
  "getProp v p = (case v of
      JUndef \<Rightarrow> None
    | JNull \<Rightarrow> None
    | JObj kvs \<Rightarrow> (case map_of kvs p of Some x \<Rightarrow> Some x | None \<Rightarrow> Some JUndef)
    | _ \<Rightarrow> Some JUndef)"

text \<open>\<open>x?.rest\<close>: the rest of the chain runs only when \<open>x\<close> is neither null nor undefined.\<close>

definition optChain :: "json \<Rightarrow> (json \<Rightarrow> json option) \<Rightarrow> json option" where
  "optChain x k = (if nullish x then Some JUndef else k x)"

text \<open>\<open>x[0]\<close> on a value that is not null or undefined.\<close>

definition js_index0 :: "json \<Rightarrow> json option" where
  "js_index0 v = (case v of
      JUndef \<Rightarrow> None
    | JNull \<Rightarrow> None
    | JArr xs \<Rightarrow> (case xs of [] \<Rightarrow> Some JUndef | x # _ \<Rightarrow> Some x)
    | JStr s \<Rightarrow> (case s of [] \<Rightarrow> Some JUndef | c # _ \<Rightarrow> Some (JStr [c]))
    | JObj kvs \<Rightarrow> (case map_of kvs ''0'' of Some x \<Rightarrow> Some x | None \<Rightarrow> Some JUndef)
    | _ \<Rightarrow> Some JUndef)"

text \<open>\<open>x.length\<close> on a value that is not null or undefined.\<close>

definition js_length :: "json \<Rightarrow> json option" where
  "js_length v = (case v of
      JUndef \<Rightarrow> None
    | JNull \<Rightarrow> None
    | JArr xs \<Rightarrow> Some (JNum (int (length xs)))
    | JStr s \<Rightarrow> Some (JNum (int (length s)))
    | JObj kvs \<Rightarrow> (case map_of kvs ''length'' of Some x \<Rightarrow> Some x | None \<Rightarrow> Some JUndef)
    | _ \<Rightarrow> Some JUndef)"

text \<open>
  \<open>a === b\<close>. Arrays and objects compare by reference; the two operands of every
  comparison in the source come from different documents, so they are never the same
  object.
\<close>

definition strictEq :: "json \<Rightarrow> json \<Rightarrow> bool" where
  "strictEq a b = (case a of
      JArr _ \<Rightarrow> False
    | JObj _ \<Rightarrow> False
    | _ \<Rightarrow> a = b)"

subsection \<open>Conversion to string\<close>

definition digit_char :: "nat \<Rightarrow> char" where
  "digit_char d =
     (if d = 0 then CHR ''0'' else if d = 1 then CHR ''1'' else if d = 2 then CHR ''2''
      else if d = 3 then CHR ''3'' else if d = 4 then CHR ''4'' else if d = 5 then CHR ''5''
      else if d = 6 then CHR ''6'' else if d = 7 then CHR ''7'' else if d = 8 then CHR ''8''
      else CHR ''9'')"

function show_nat :: "nat \<Rightarrow> string" where
  "show_nat n = (if n < 10 then [digit_char n] else show_nat (n div 10) @ [digit_char (n mod 10)])"
  by pat_completeness auto
termination
  by (relation "measure (\<lambda>n. n)") auto

declare show_nat.simps [simp del]

definition show_int :: "int \<Rightarrow> string" where
  "show_int i = (if i < 0 then CHR ''-'' # show_nat (nat (- i)) else show_nat (nat i))"

text \<open>
  \<open>String(v)\<close> and \<open>`${v}`\<close>. An object that carries an own property \<open>toString\<close> (never a
  function in JSON) cannot be converted: TypeError. An array is its elements joined by
  commas, \<open>null\<close> and \<open>undefined\<close> elements as the empty string.
\<close>

fun js_String :: "json \<Rightarrow> string option"
  and js_join :: "json list \<Rightarrow> string option" where
  "js_String JUndef = Some ''undefined''"
| "js_String JNull = Some ''null''"
| "js_String (JBool b) = Some (if b then ''true'' else ''false'')"
| "js_String (JNum n) = Some (show_int n)"
| "js_String (JStr s) = Some s"
| "js_String (JArr xs) = js_join xs"
| "js_String (JObj kvs) =
     (if map_of kvs ''toString'' \<noteq> None then None else Some ''[object Object]'')"
| "js_join [] = Some []"
| "js_join (x # xs) =
     (case (if nullish x then Some [] else js_String x) of
        None \<Rightarrow> None
      | Some s \<Rightarrow>
          (if xs = [] then Some s
           else (case js_join xs of None \<Rightarrow> None | Some r \<Rightarrow> Some (s @ '','' @ r))))"

subsection \<open>Array and string methods\<close>

text \<open>\<open>xs.find(cb)\<close>, \<open>xs.some(cb)\<close> and \<open>xs.map(cb)\<close> with a callback that may throw.\<close>

fun find_list :: "(json \<Rightarrow> bool option) \<Rightarrow> json list \<Rightarrow> json option" where
  "find_list cb [] = Some JUndef"
| "find_list cb (x # xs) =
     (case cb x of None \<Rightarrow> None | Some b \<Rightarrow> if b then Some x else find_list cb xs)"

definition js_find :: "(json \<Rightarrow> bool option) \<Rightarrow> json \<Rightarrow> json option" where
  "js_find cb v = (case v of JArr xs \<Rightarrow> find_list cb xs | _ \<Rightarrow> None)"

fun some_list :: "(json \<Rightarrow> bool option) \<Rightarrow> json list \<Rightarrow> bool option" where
  "some_list cb [] = Some False"
| "some_list cb (x # xs) =
     (case cb x of None \<Rightarrow> None | Some b \<Rightarrow> if b then Some True else some_list cb xs)"

fun map_list :: "(json \<Rightarrow> json option) \<Rightarrow> json list \<Rightarrow> json list option" where
  "map_list cb [] = Some []"
| "map_list cb (x # xs) =
     (case cb x of
        None \<Rightarrow> None
      | Some y \<Rightarrow> (case map_list cb xs of None \<Rightarrow> None | Some ys \<Rightarrow> Some (y # ys)))"

text \<open>
  \<open>x.includes(v)\<close>: on a string, whether \<open>String(v)\<close> occurs in it; on an array, whether
  an element is identical to \<open>v\<close>; anything else has no such method.
\<close>

definition js_includes :: "json \<Rightarrow> json \<Rightarrow> bool option" where
  "js_includes x v = (case x of
      JStr s \<Rightarrow> (case js_String v of None \<Rightarrow> None | Some t \<Rightarrow> Some (sublist t s))
    | JArr xs \<Rightarrow> Some (\<exists>y \<in> set xs. strictEq y v)
    | _ \<Rightarrow> None)"

text \<open>The values a \<open>for ... of\<close> loop visits: array elements or the characters of a string.\<close>

definition js_iter :: "json \<Rightarrow> json list option" where
  "js_iter v = (case v of
      JArr xs \<Rightarrow> Some xs
    | JStr s \<Rightarrow> Some (map (\<lambda>c. JStr [c]) s)
    | _ \<Rightarrow> None)"

text \<open>The keys of \<open>Object.entries(v)\<close> for a value that is not null or undefined.\<close>

definition entry_keys :: "json \<Rightarrow> string list" where
  "entry_keys v = (case v of
      JObj kvs \<Rightarrow> map fst kvs
    | JArr xs \<Rightarrow> map (\<lambda>i. show_nat i) [0 ..< length xs]
    | JStr s \<Rightarrow> map (\<lambda>i. show_nat i) [0 ..< length s]
    | _ \<Rightarrow> [])"

section \<open>Collaborators outside the repository\<close>

text \<open>
  The abstract equality \<open>==\<close> and the comparison \<open>> 0\<close> of the language convert strings
  to floating-point numbers; \<open>JSON.parse\<close> is the runtime's parser. They are parameters of
  the model: nothing proved below depends on which functions they are.
\<close>

record runtime =
  looseEq :: "json \<Rightarrow> json \<Rightarrow> bool"
  gtZero :: "json \<Rightarrow> bool"
  jsonParse :: "string \<Rightarrow> json option"

section \<open>The condition evaluator\<close>

text \<open>
  \<open>eventData.leadDetails?.custom_fields_values?.find(f => f.field_id == condition.field)
  ?.values?.[0]?.value\<close>
\<close>

definition amoFieldValue :: "runtime \<Rightarrow> json \<Rightarrow> json \<Rightarrow> json option" where
  "amoFieldValue rt condition eventData = do {
     ld \<leftarrow> getProp eventData ''leadDetails'';
     optChain ld (\<lambda>ld. do {
       cfv \<leftarrow> getProp ld ''custom_fields_values'';
       optChain cfv (\<lambda>cfv. do {
         f \<leftarrow> js_find (\<lambda>f. do {
                fid \<leftarrow> getProp f ''field_id'';
                cf \<leftarrow> getProp condition ''field'';
                Some (looseEq rt fid cf) }) cfv;
         optChain f (\<lambda>f. do {
           vs \<leftarrow> getProp f ''values'';
           optChain vs (\<lambda>vs. do {
             v0 \<leftarrow> js_index0 vs;
             optChain v0 (\<lambda>v0. getProp v0 ''value'') }) }) }) }) }"

text \<open>\<open>eventData.custom?.find(f => f.id == condition.field)?.value\<close>\<close>

definition lpFieldValue :: "runtime \<Rightarrow> json \<Rightarrow> json \<Rightarrow> json option" where
  "lpFieldValue rt condition eventData = do {
     cu \<leftarrow> getProp eventData ''custom'';
     optChain cu (\<lambda>cu. do {
       f \<leftarrow> js_find (\<lambda>f. do {
              fid \<leftarrow> getProp f ''id'';
              cf \<leftarrow> getProp condition ''field'';
              Some (looseEq rt fid cf) }) cu;
       optChain f (\<lambda>f. getProp f ''value'') }) }"

text \<open>\<open>String(a) === String(condition.value)\<close>\<close>

definition sameString :: "json \<Rightarrow> json \<Rightarrow> json option" where
  "sameString a condition = do {
     s \<leftarrow> js_String a;
     cv \<leftarrow> getProp condition ''value'';
     t \<leftarrow> js_String cv;
     Some (JBool (s = t)) }"

text \<open>\<open>v?.includes(condition.value)\<close> for a value \<open>v\<close> that is not \<open>undefined\<close>.\<close>

definition containsValue :: "json \<Rightarrow> json \<Rightarrow> json option" where
  "containsValue v condition =
     optChain v (\<lambda>v. do {
       cv \<leftarrow> getProp condition ''value'';
       b \<leftarrow> js_includes v cv;
       Some (JBool b) })"

text \<open>\<open>v != null && v !== ''\<close>\<close>

definition notEmpty :: "json \<Rightarrow> json" where
  "notEmpty v = JBool (\<not> nullish v \<and> v \<noteq> JStr [])"

text \<open>
  The callback of \<open>conditions.rules.map\<close>: the \<open>switch\<close> on \<open>condition.type\<close>. Its result
  is the value the callback returns (not always a boolean: \<open>null?.includes(..)\<close> is
  \<open>undefined\<close>); \<open>None\<close> when it throws.
\<close>

definition evalCondition :: "runtime \<Rightarrow> json \<Rightarrow> json \<Rightarrow> json option" where
  "evalCondition rt eventData condition = do {
     ty \<leftarrow> getProp condition ''type'';
     if ty = JStr ''event_type'' then do {
       t \<leftarrow> getProp eventData ''type'';
       cv \<leftarrow> getProp condition ''value'';
       Some (JBool (strictEq t cv)) }
     else if ty = JStr ''pipeline'' then do {
       ld \<leftarrow> getProp eventData ''leadDetails'';
       a \<leftarrow> optChain ld (\<lambda>ld. getProp ld ''pipeline_id'');
       pipelineId \<leftarrow> (if truthy a then Some a else do {
         wp \<leftarrow> getProp eventData ''webhookPayload'';
         optChain wp (\<lambda>wp. getProp wp ''leads[add][0][pipeline_id]'') });
       sameString pipelineId condition }
     else if ty = JStr ''status'' then do {
       ld \<leftarrow> getProp eventData ''leadDetails'';
       a \<leftarrow> optChain ld (\<lambda>ld. getProp ld ''status_id'');
       statusId \<leftarrow> (if truthy a then Some a else do {
         wp \<leftarrow> getProp eventData ''webhookPayload'';
         b \<leftarrow> optChain wp (\<lambda>wp. getProp wp ''leads[add][0][status_id]'');
         if truthy b then Some b else do {
           c \<leftarrow> getProp eventData ''stage_id'';
           if truthy c then Some c else do {
             st \<leftarrow> getProp eventData ''stage'';
             optChain st (\<lambda>st. getProp st ''id'') } } });
       sameString statusId condition }
     else if ty = JStr ''field_equals'' then do {
       fieldValue \<leftarrow> amoFieldValue rt condition eventData;
       if fieldValue \<noteq> JUndef then sameString fieldValue condition
       else do {
         lpTrackerFieldValue \<leftarrow> lpFieldValue rt condition eventData;
         if lpTrackerFieldValue \<noteq> JUndef then sameString lpTrackerFieldValue condition
         else Some (JBool False) } }
     else if ty = JStr ''field_contains'' then do {
       fieldValueContains \<leftarrow> amoFieldValue rt condition eventData;
       if fieldValueContains \<noteq> JUndef then containsValue fieldValueContains condition
       else do {
         lpTrackerField \<leftarrow> lpFieldValue rt condition eventData;
         if lpTrackerField \<noteq> JUndef then containsValue lpTrackerField condition
         else Some (JBool False) } }
     else if ty = JStr ''field_not_empty'' then do {
       fieldValueNotEmpty \<leftarrow> amoFieldValue rt condition eventData;
       if fieldValueNotEmpty \<noteq> JUndef then Some (notEmpty fieldValueNotEmpty)
       else do {
         lpTrackerFieldNotEmpty \<leftarrow> lpFieldValue rt condition eventData;
         if lpTrackerFieldNotEmpty \<noteq> JUndef then Some (notEmpty lpTrackerFieldNotEmpty)
         else Some (JBool False) } }
     else Some (JBool False) }"

text \<open>
  The body of the \<open>try\<close> block of \<open>checkConditions\<close>; \<open>None\<close> when it throws. The
  operator is \<open>conditions.operator || 'AND'\<close>, and only the exact string \<open>OR\<close> selects
  \<open>some\<close>.
\<close>

definition checkConditions_body :: "runtime \<Rightarrow> json \<Rightarrow> json \<Rightarrow> bool option" where
  "checkConditions_body rt conditions eventData =
     (if \<not> truthy conditions then Some False
      else do {
        rules \<leftarrow> getProp conditions ''rules'';
        if \<not> truthy rules then Some False
        else do {
          op \<leftarrow> getProp conditions ''operator'';
          results \<leftarrow> (case rules of
                        JArr cs \<Rightarrow> map_list (evalCondition rt eventData) cs
                      | _ \<Rightarrow> None);
          if strictEq (js_or op (JStr ''AND'')) (JStr ''OR'')
          then Some (list_ex truthy results)
          else Some (list_all truthy results) } })"

text \<open>\<open>checkConditions\<close>: the \<open>catch\<close> turns every exception into \<open>false\<close>.\<close>

definition checkConditions :: "runtime \<Rightarrow> json \<Rightarrow> json \<Rightarrow> bool" where
  "checkConditions rt conditions eventData =
     (case checkConditions_body rt conditions eventData of None \<Rightarrow> False | Some b \<Rightarrow> b)"

section \<open>Rules, collaborators and the world\<close>

text \<open>
  A synchronisation rule as the configuration store returns it: typed columns, and the
  two JSON columns \<open>conditions\<close> and \<open>actions\<close>.
\<close>

record syncRule =
  ruleId :: int
  ruleName :: string
  webhookSource :: string
  isActive :: bool
  conditions :: json
  actions :: json

text \<open>An empty string stands for a NULL column: both are falsy wherever the source reads them.\<close>

record amoCrmSettings =
  amoSubdomain :: string
  amoApiKey :: string

record lpTrackerSettings =
  lpProjectId :: "string option"
  lpUserId :: string

datatype exn =
    TypeError
  | SettingsNotFound
  | ApiError int
  | ContactApiError int
  | Failure string

record httpResponse =
  ok :: bool
  status :: int
  body :: "exn + json"

datatype target = AmoCrm | LpTracker

text \<open>A call of a CRM sync adapter: target, user id, normalized record, match strategy.\<close>

type_synonym syncCall = "target \<times> json \<times> json \<times> json"

text \<open>
  The services the pipeline calls and which are not part of the repository's sources:
  the configuration store, the CRM sync adapters and the HTTP client. A read returns its
  result or the exception it raises; \<open>incrementFails\<close> and \<open>syncFails\<close> say which
  counter increments and which adapter calls raise.
\<close>

record env =
  rt :: runtime
  getSyncRules :: "string \<Rightarrow> exn + syncRule list"
  getAmoCrmSettings :: "string \<Rightarrow> exn + amoCrmSettings option"
  getAllLpTrackerSettings :: "exn + lpTrackerSettings list"
  selectUsers :: "exn + string list"
  incrementFails :: "int \<Rightarrow> exn option"
  syncFails :: "syncCall \<Rightarrow> exn option"
  fetch :: "string \<Rightarrow> string \<Rightarrow> exn + httpResponse"

datatype level = LInfo | LWarning | LError

text \<open>One constructor per log call of the source (the messages are Russian text).\<close>

datatype logMsg =
    LpParseError
  | LpAnalysis
  | LpNoProjectId
  | LpUserNotFound
  | LpProcessing
  | LpRuleAlreadyProcessed int
  | LpRuleNotRelevant int
  | LpRuleApplicable int
  | LpRuleNotApplicable int
  | LpRuleError int exn
  | LpWebhookError exn
  | FindUserError
  | AmoStart
  | AmoNoSubdomain
  | AmoUserNotFound
  | AmoNoLeadId
  | AmoLeadDetails
  | AmoContactInfo
  | AmoContactFailed exn
  | AmoLeadFetchError exn
  | AmoWebhookError exn
  | AmoCheckingRules nat
  | AmoCheckRule int
  | AmoRuleMatches int
  | AmoRuleAlreadyProcessed int
  | AmoRuleNoMatch int
  | AmoRuleError int exn
  | AmoRulesError exn
  | ActionRunning
  | ActionSourceData
  | ActionUnknownType
  | ActionError exn
  | ActionsError exn
  | CacheRulesHit
  | CacheRulesStored
  | CacheAllCleared
  | CacheUserCleared
  | QueueAmoProcessed
  | QueueAmoError exn

type_synonym logEntry = "level \<times> json \<times> logMsg"

datatype cacheVal = RulesVal "syncRule list" | JsonVal json

text \<open>
  The mutable state: the clock (seconds), the Redis server (whether it answers, and its
  keys with value and expiry time), the execution counters of the configuration store,
  the adapter calls made so far, the log, and the in-process connection pools.
\<close>

record world =
  clock :: nat
  redisUp :: bool
  redisStore :: "(string \<times> cacheVal \<times> nat) list"
  execCount :: "int \<Rightarrow> nat"
  syncCalls :: "syncCall list"
  logs :: "logEntry list"
  connectionPools :: "(string \<times> json) list"

text \<open>
  Modelled from the spec: the Log Sink (\<open>logService\<close>, not among the sources) records
  \<open>(level, userId|none, message, context, category)\<close>, fire-and-forget: it never fails
  the calling operation.
\<close>

definition logAt :: "level \<Rightarrow> json \<Rightarrow> logMsg \<Rightarrow> world \<Rightarrow> world" where
  "logAt lvl uid msg w = w\<lparr>logs := logs w @ [(lvl, uid, msg)]\<rparr>"

text \<open>
  Modelled from the spec: \<open>incrementRuleExecution(ruleId) -> void\<close> of the Configuration
  Store adds one to the rule's execution counter; a failing store raises instead.
\<close>

definition incrementRuleExecution :: "env \<Rightarrow> int \<Rightarrow> world \<Rightarrow> exn option \<times> world" where
  "incrementRuleExecution e rid w =
     (case incrementFails e rid of
        Some x \<Rightarrow> (Some x, w)
      | None \<Rightarrow> (None, w\<lparr>execCount := (execCount w)(rid := Suc (execCount w rid))\<rparr>))"

text \<open>
  Modelled from the spec: \<open>syncToAmoCrm\<close> / \<open>syncToLpTracker(userId, normalizedRecord,
  matchStrategy)\<close>; a failure of an adapter call surfaces as an exception.
\<close>

definition callAdapter :: "env \<Rightarrow> syncCall \<Rightarrow> world \<Rightarrow> exn option \<times> world" where
  "callAdapter e call w = (syncFails e call, w\<lparr>syncCalls := syncCalls w @ [call]\<rparr>)"

section \<open>The Redis cache\<close>

subsection \<open>Glob-style patterns of the KEYS command\<close>

definition backslash :: char where
  "backslash = CHR 0x5C"

definition in_range :: "char \<Rightarrow> char \<Rightarrow> char \<Rightarrow> bool" where
  "in_range a b c =
     (let x = (of_char a :: nat); y = of_char b; z = of_char c
      in min x y \<le> z \<and> z \<le> max x y)"

text \<open>
  The body of a character class \<open>[...]\<close> against the character \<open>c\<close>: whether a member
  matched, and the pattern after the closing bracket.
\<close>

fun class_scan :: "string \<Rightarrow> char \<Rightarrow> bool \<times> string" where
  "class_scan [] c = (False, [])"
| "class_scan [p] c = (if p = CHR '']'' then (False, []) else (p = c, []))"
| "class_scan (p # q # ps) c =
     (if p = backslash then (q = c \<or> fst (class_scan ps c), snd (class_scan ps c))
      else if p = CHR '']'' then (False, q # ps)
      else if q = CHR ''-'' then
        (case ps of
           [] \<Rightarrow> (p = c \<or> fst (class_scan [q] c), snd (class_scan [q] c))
         | z # ps' \<Rightarrow> (in_range p z c \<or> fst (class_scan ps' c), snd (class_scan ps' c)))
      else (p = c \<or> fst (class_scan (q # ps) c), snd (class_scan (q # ps) c)))"

lemma class_scan_length: "length (snd (class_scan ps c)) \<le> length ps"
proof (induction ps c rule: class_scan.induct)
  case (1 c)
  show ?case by simp
next
  case (2 p c)
  show ?case by simp
next
  case (3 p q ps c)
  show ?case
  proof (cases ps)
    case Nil
    with 3 show ?thesis by simp
  next
    case (Cons z ps')
    with 3 show ?thesis by (simp del: class_scan.simps(3) add: class_scan.simps(3)[of p q "z # ps'" c] le_SucI)
  qed
qed

function glob_match :: "string \<Rightarrow> string \<Rightarrow> bool" where
  "glob_match [] s = (s = [])"
| "glob_match (p # ps) [] = (p = CHR ''*'' \<and> glob_match ps [])"
| "glob_match (p # ps) (c # s) =
     (if p = CHR ''*'' then glob_match ps (c # s) \<or> glob_match (p # ps) s
      else if p = CHR ''?'' then glob_match ps s
      else if p = CHR ''['' then
        (case ps of
           [] \<Rightarrow> False
         | q # qs \<Rightarrow>
             (if q = CHR ''^''
              then \<not> fst (class_scan qs c) \<and> glob_match (snd (class_scan qs c)) s
              else fst (class_scan ps c) \<and> glob_match (snd (class_scan ps c)) s))
      else if p = backslash then
        (case ps of
           [] \<Rightarrow> c = p \<and> glob_match [] s
         | q # qs \<Rightarrow> c = q \<and> glob_match qs s)
      else c = p \<and> glob_match ps s)"
  by pat_completeness auto
termination
proof (relation "measure (\<lambda>(p, s). length p + length s)", goal_cases)
  case 1
  show ?case by simp
next
  case (6 p ps c s q qs)
  have "length (snd (class_scan qs c)) \<le> length qs" by (rule class_scan_length)
  with 6 show ?case by simp
next
  case (7 p ps c s q qs)
  have "length (snd (class_scan (q # qs) c)) \<le> length (q # qs)" by (rule class_scan_length)
  with 7 show ?case by simp
qed auto

declare glob_match.simps [simp del]

subsection \<open>The server's commands\<close>

text \<open>
  A key exists while the clock is before its expiry time. \<open>SETEX\<close> replaces the key
  and lets it expire \<open>ttl\<close> seconds from now. Every command fails while the server is
  down (\<open>redisUp = False\<close>).
\<close>

definition redis_lookup :: "world \<Rightarrow> string \<Rightarrow> cacheVal option" where
  "redis_lookup w k =
     (case map_of (redisStore w) k of
        None \<Rightarrow> None
      | Some (v, expiry) \<Rightarrow> if clock w < expiry then Some v else None)"

definition redis_setex :: "string \<Rightarrow> nat \<Rightarrow> cacheVal \<Rightarrow> world \<Rightarrow> world" where
  "redis_setex k ttl v w =
     w\<lparr>redisStore := (k, v, clock w + ttl) # filter (\<lambda>kv. fst kv \<noteq> k) (redisStore w)\<rparr>"

definition redis_keys :: "world \<Rightarrow> string \<Rightarrow> string list" where
  "redis_keys w pattern =
     filter (\<lambda>k. redis_lookup w k \<noteq> None \<and> glob_match pattern k) (map fst (redisStore w))"

definition redis_del :: "string list \<Rightarrow> world \<Rightarrow> world" where
  "redis_del ks w = w\<lparr>redisStore := filter (\<lambda>kv. fst kv \<notin> set ks) (redisStore w)\<rparr>"

subsection \<open>Class RedisCache\<close>

text \<open>
  Every method prefixes the key with \<open>crm:\<close> and catches the client's exception: a read
  then answers \<open>null\<close>, \<open>false\<close> or \<open>[]\<close>, a write does nothing. Values are stored as
  they are (\<open>JSON.stringify\<close> followed by \<open>JSON.parse\<close> is the identity on the rule
  lists and marker objects the program stores).
\<close>

definition cache_get :: "world \<Rightarrow> string \<Rightarrow> cacheVal option" where
  "cache_get w key = (if redisUp w then redis_lookup w (''crm:'' @ key) else None)"

definition cache_set :: "string \<Rightarrow> cacheVal \<Rightarrow> nat \<Rightarrow> world \<Rightarrow> world" where
  "cache_set key v ttl w = (if redisUp w then redis_setex (''crm:'' @ key) ttl v w else w)"

definition cache_exists :: "world \<Rightarrow> string \<Rightarrow> bool" where
  "cache_exists w key = (redisUp w \<and> redis_lookup w (''crm:'' @ key) \<noteq> None)"

definition cache_keys :: "world \<Rightarrow> string \<Rightarrow> string list" where
  "cache_keys w pattern = (if redisUp w then redis_keys w (''crm:'' @ pattern) else [])"

definition flushPattern :: "string \<Rightarrow> world \<Rightarrow> world" where
  "flushPattern pattern w =
     (let keys = cache_keys w pattern
      in if length keys > 0 \<and> redisUp w then redis_del keys w else w)"

definition setWithTTL :: "string \<Rightarrow> cacheVal \<Rightarrow> nat \<Rightarrow> world \<Rightarrow> world" where
  "setWithTTL key v ttl w = (if redisUp w then redis_setex (''crm:'' @ key) ttl v w else w)"

section \<open>Deduplication of webhooks\<close>

definition WEBHOOK_DEDUP_TTL :: nat where
  "WEBHOOK_DEDUP_TTL = 10 * 60"

text \<open>
  \<open>`webhook:${userId}:${leadId}:${ruleId}:${timestamp || 'default'}`\<close>; the timestamp is
  whatever the payload carries (\<open>JUndef\<close> when the caller passes none).
\<close>

definition generateWebhookKey :: "string \<Rightarrow> string \<Rightarrow> int \<Rightarrow> json \<Rightarrow> string option" where
  "generateWebhookKey userId leadId rid timestamp = do {
     t \<leftarrow> js_String (js_or timestamp (JStr ''default''));
     Some (''webhook:'' @ userId @ '':'' @ leadId @ '':'' @ show_int rid @ '':'' @ t) }"

definition isWebhookAlreadyProcessed ::
    "world \<Rightarrow> string \<Rightarrow> string \<Rightarrow> int \<Rightarrow> json \<Rightarrow> bool option" where
  "isWebhookAlreadyProcessed w userId leadId rid timestamp = do {
     key \<leftarrow> generateWebhookKey userId leadId rid timestamp;
     Some (cache_exists w key) }"

text \<open>The marker is \<open>{ processed: true, timestamp: Date.now() }\<close> (milliseconds).\<close>

definition markWebhookProcessedInRedis ::
    "string \<Rightarrow> string \<Rightarrow> int \<Rightarrow> json \<Rightarrow> world \<Rightarrow> world option" where
  "markWebhookProcessedInRedis userId leadId rid timestamp w = do {
     key \<leftarrow> generateWebhookKey userId leadId rid timestamp;
     Some (setWithTTL key
        (JsonVal (JObj [(''processed'', JBool True), (''timestamp'', JNum (int (clock w) * 1000))]))
        WEBHOOK_DEDUP_TTL w) }"

section \<open>The relevance filter\<close>

text \<open>
  \<open>updatedFields.some(field => field.includes(x) || field === `custom.${x}`)\<close>, the
  pattern string being built before the scan.
\<close>

definition fieldTouched :: "json list \<Rightarrow> json \<Rightarrow> bool option" where
  "fieldTouched updatedFields x = do {
     fieldPattern \<leftarrow> js_String x;
     some_list (\<lambda>field. do {
        b \<leftarrow> js_includes field x;
        Some (b \<or> strictEq field (JStr (''custom.'' @ fieldPattern))) }) updatedFields }"

text \<open>
  The loop over \<open>rule.conditions.rules\<close>: \<open>Some True\<close> when it returns \<open>true\<close>,
  \<open>Some False\<close> when it runs to its end.
\<close>

fun conditionsTouched :: "json list \<Rightarrow> json list \<Rightarrow> bool option" where
  "conditionsTouched updatedFields [] = Some False"
| "conditionsTouched updatedFields (condition # rest) = do {
     f \<leftarrow> getProp condition ''field'';
     isFieldCondition \<leftarrow>
       (if truthy f then do {
          ty \<leftarrow> getProp condition ''type'';
          if nullish ty then Some False else js_includes ty (JStr ''field_'') }
        else Some False);
     hit \<leftarrow> (if isFieldCondition then fieldTouched updatedFields f else Some False);
     if hit then Some True else conditionsTouched updatedFields rest }"

text \<open>The loop over the keys of one action's \<open>fieldMappings\<close>.\<close>

fun mappingsTouched :: "json list \<Rightarrow> string list \<Rightarrow> bool option" where
  "mappingsTouched updatedFields [] = Some False"
| "mappingsTouched updatedFields (sourceField # rest) = do {
     hit \<leftarrow> fieldTouched updatedFields (JStr sourceField);
     if hit then Some True else mappingsTouched updatedFields rest }"

text \<open>The loop over \<open>rule.actions.list\<close>.\<close>

fun actionsTouched :: "json list \<Rightarrow> json list \<Rightarrow> bool option" where
  "actionsTouched updatedFields [] = Some False"
| "actionsTouched updatedFields (action # rest) = do {
     fm \<leftarrow> getProp action ''fieldMappings'';
     hit \<leftarrow> (if truthy fm then mappingsTouched updatedFields (entry_keys fm) else Some False);
     if hit then Some True else actionsTouched updatedFields rest }"

definition isWebhookRelevant :: "json \<Rightarrow> syncRule \<Rightarrow> bool option" where
  "isWebhookRelevant webhookData rule = do {
     auf \<leftarrow> getProp webhookData ''action_update_fields'';
     (case auf of
        JArr updatedFields \<Rightarrow>
          if (\<exists>y \<in> set updatedFields. strictEq y (JStr ''stage''))
             \<or> (\<exists>y \<in> set updatedFields. strictEq y (JStr ''stage_id'')) then Some True
          else if (\<exists>y \<in> set updatedFields. strictEq y (JStr ''payments'')) then Some True
          else do {
            crules \<leftarrow> optChain (conditions rule) (\<lambda>c. getProp c ''rules'');
            hit \<leftarrow> (if truthy crules then do {
                       cs \<leftarrow> js_iter crules;
                       conditionsTouched updatedFields cs }
                     else Some False);
            if hit then Some True
            else do {
              alist \<leftarrow> optChain (actions rule) (\<lambda>a. getProp a ''list'');
              (if truthy alist then do {
                 as \<leftarrow> js_iter alist;
                 actionsTouched updatedFields as }
               else Some False) } }
      | _ \<Rightarrow> Some True) }"

section \<open>The action dispatcher\<close>

text \<open>\<open>a || b\<close> where evaluating either side may throw; \<open>b\<close> runs only for a falsy \<open>a\<close>.\<close>

definition orElse :: "json option \<Rightarrow> json option \<Rightarrow> json option" where
  "orElse a b = (case a of None \<Rightarrow> None | Some x \<Rightarrow> if truthy x then Some x else b)"

text \<open>\<open>x?.p\<close>\<close>

definition optField :: "json \<Rightarrow> string \<Rightarrow> json option" where
  "optField x p = optChain x (\<lambda>y. getProp y p)"

text \<open>\<open>eventData.contactsDetails?.[0]\<close>\<close>

definition firstContact :: "json \<Rightarrow> json option" where
  "firstContact eventData = do {
     cd \<leftarrow> getProp eventData ''contactsDetails'';
     optChain cd js_index0 }"

definition extractPhoneFromLpTrackerContact :: "json \<Rightarrow> json option" where
  "extractPhoneFromLpTrackerContact contact =
     (if \<not> truthy contact then Some (JStr [])
      else do {
        cs \<leftarrow> getProp contact ''contacts'';
        if \<not> truthy cs then Some (JStr [])
        else do {
          phoneContact \<leftarrow> js_find (\<lambda>c. do {
              t \<leftarrow> getProp c ''type'';
              Some (strictEq t (JStr ''phone'')) }) cs;
          if truthy phoneContact then getProp phoneContact ''data'' else Some (JStr []) } })"

text \<open>
  \<open>extractPhoneFromContact\<close> and \<open>extractEmailFromContact\<close> differ in the field code and
  the field name they look for only.
\<close>

definition extractFromContact :: "runtime \<Rightarrow> string \<Rightarrow> string \<Rightarrow> json \<Rightarrow> json option" where
  "extractFromContact r code fname contact =
     (if \<not> truthy contact then Some (JStr [])
      else do {
        cfv \<leftarrow> getProp contact ''custom_fields_values'';
        if \<not> truthy cfv then Some (JStr [])
        else do {
          fld \<leftarrow> js_find (\<lambda>field. do {
              fc \<leftarrow> getProp field ''field_code'';
              if strictEq fc (JStr code) then Some True
              else do {
                fn \<leftarrow> getProp field ''field_name'';
                Some (strictEq fn (JStr fname)) } }) cfv;
          if \<not> truthy fld then Some (JStr [])
          else do {
            vs \<leftarrow> getProp fld ''values'';
            if \<not> truthy vs then Some (JStr [])
            else do {
              n \<leftarrow> js_length vs;
              if gtZero r n then do {
                v0 \<leftarrow> js_index0 vs;
                getProp v0 ''value'' }
              else Some (JStr []) } } } })"

definition phoneFieldName :: string where
  "phoneFieldName = [CHR 0xD0, CHR 0xA2, CHR 0xD0, CHR 0xB5, CHR 0xD0, CHR 0xBB, CHR 0xD0,
     CHR 0xB5, CHR 0xD1, CHR 0x84, CHR 0xD0, CHR 0xBE, CHR 0xD0, CHR 0xBD]"

definition defaultContactName :: string where
  "defaultContactName = [CHR 0xD0, CHR 0x9D, CHR 0xD0, CHR 0xBE, CHR 0xD0, CHR 0xB2, CHR 0xD1,
     CHR 0x8B, CHR 0xD0, CHR 0xB9, CHR 0x20, CHR 0xD0, CHR 0xBA, CHR 0xD0, CHR 0xBE, CHR 0xD0,
     CHR 0xBD, CHR 0xD1, CHR 0x82, CHR 0xD0, CHR 0xB0, CHR 0xD0, CHR 0xBA, CHR 0xD1, CHR 0x82]"

definition defaultDealName :: string where
  "defaultDealName = [CHR 0xD0, CHR 0x9D, CHR 0xD0, CHR 0xBE, CHR 0xD0, CHR 0xB2, CHR 0xD0,
     CHR 0xB0, CHR 0xD1, CHR 0x8F, CHR 0x20, CHR 0xD1, CHR 0x81, CHR 0xD0, CHR 0xB4, CHR 0xD0,
     CHR 0xB5, CHR 0xD0, CHR 0xBB, CHR 0xD0, CHR 0xBA, CHR 0xD0, CHR 0xB0]"

text \<open>An optional target setting is copied only when it is set and not empty.\<close>

definition optionalSetting :: "json \<Rightarrow> string \<Rightarrow> (string \<times> json) list" where
  "optionalSetting action k =
     (case getProp action k of
        Some v \<Rightarrow> if truthy v then [(k, v)] else []
      | None \<Rightarrow> [])"

text \<open>
  The record handed to the sync adapter (the object \<open>webhookData\<close> of \<open>executeActions\<close>);
  \<open>None\<close> when reading the event throws.
\<close>

definition buildSyncRecord :: "runtime \<Rightarrow> json \<Rightarrow> json \<Rightarrow> json option" where
  "buildSyncRecord r action eventData = do {
     c0 \<leftarrow> firstContact eventData;
     contact \<leftarrow> getProp eventData ''contact'';
     callData \<leftarrow> getProp eventData ''callData'';
     leadDetails \<leftarrow> getProp eventData ''leadDetails'';
     name \<leftarrow> orElse (optField c0 ''name'') (orElse (optField c0 ''first_name'')
               (orElse (optField contact ''name'') (orElse (optField callData ''contact_name'')
               (Some (JStr defaultContactName)))));
     first_name \<leftarrow> orElse (optField c0 ''first_name'')
               (orElse (optField callData ''contact_name'') (Some (JStr [])));
     last_name \<leftarrow> orElse (optField c0 ''last_name'') (Some (JStr []));
     phone \<leftarrow> orElse (extractPhoneFromLpTrackerContact contact)
               (orElse (extractFromContact r ''PHONE'' phoneFieldName c0)
               (orElse (optField callData ''phone'') (Some (JStr []))));
     email \<leftarrow> orElse (extractFromContact r ''EMAIL'' ''Email'' c0)
               (orElse (optField callData ''email'') (Some (JStr [])));
     nm \<leftarrow> getProp eventData ''name'';
     deal_name \<leftarrow> orElse (optField leadDetails ''name'')
               (orElse (Some nm) (Some (JStr defaultDealName)));
     price \<leftarrow> orElse (optField leadDetails ''price'') (Some (JNum 0));
     custom_fields \<leftarrow> orElse (optField leadDetails ''custom_fields_values'') (Some (JObj []));
     campaign \<leftarrow> orElse (optField callData ''campaign'') (Some (JStr []));
     keyword \<leftarrow> orElse (optField callData ''keyword'') (Some (JStr []));
     fm \<leftarrow> getProp action ''fieldMappings'';
     Some (JObj ([(''name'', name), (''first_name'', first_name), (''last_name'', last_name),
        (''phone'', phone), (''email'', email), (''deal_name'', deal_name), (''price'', price),
        (''custom_fields'', custom_fields), (''source'', JStr ''webhook_automation''),
        (''campaign'', campaign), (''keyword'', keyword),
        (''fieldMappings'', js_or fm (JObj [])), (''originalEventData'', eventData)]
        @ optionalSetting action ''amocrmPipelineId'' @ optionalSetting action ''amocrmStatusId''
        @ optionalSetting action ''lptrackerStageId''
        @ optionalSetting action ''lptrackerProjectId'')) }"

text \<open>\<open>`${action.type}`\<close>, which the log messages of an action evaluate.\<close>

definition actionTypeText :: "json \<Rightarrow> string option" where
  "actionTypeText action = do { t \<leftarrow> getProp action ''type''; js_String t }"

text \<open>
  The \<open>try\<close> block for one action. The first component is the exception that leaves
  the block, if any.
\<close>

definition actionAttempt :: "env \<Rightarrow> json \<Rightarrow> json \<Rightarrow> json \<Rightarrow> world \<Rightarrow> exn option \<times> world" where
  "actionAttempt e eventData uid action w =
     (case actionTypeText action of
        None \<Rightarrow> (Some TypeError, w)
      | Some _ \<Rightarrow>
          (let w1 = logAt LInfo uid ActionRunning w in
           case buildSyncRecord (rt e) action eventData of
             None \<Rightarrow> (Some TypeError, w1)
           | Some syncRecord \<Rightarrow>
               (let w2 = logAt LInfo uid ActionSourceData w1;
                    ty = (case getProp action ''type'' of Some t \<Rightarrow> t | None \<Rightarrow> JUndef);
                    searchBy = (case getProp action ''searchBy'' of
                                  Some sb \<Rightarrow> js_or sb (JStr ''phone'')
                                | None \<Rightarrow> JStr ''phone'')
                in if ty = JStr ''sync_to_amocrm''
                   then callAdapter e (AmoCrm, uid, syncRecord, searchBy) w2
                   else if ty = JStr ''sync_to_lptracker''
                   then callAdapter e (LpTracker, uid, syncRecord, searchBy) w2
                   else (None, logAt LWarning uid ActionUnknownType w2))))"

text \<open>
  One iteration of the loop over \<open>actions.list\<close>: the \<open>catch\<close> logs the error; building
  its message evaluates \<open>action.type\<close> again, which may throw out of the handler.
\<close>

definition runAction :: "env \<Rightarrow> json \<Rightarrow> json \<Rightarrow> json \<Rightarrow> world \<Rightarrow> exn option \<times> world" where
  "runAction e eventData uid action w =
     (case actionAttempt e eventData uid action w of
        (None, w') \<Rightarrow> (None, w')
      | (Some x, w') \<Rightarrow>
          (case actionTypeText action of
             None \<Rightarrow> (Some TypeError, w')
           | Some _ \<Rightarrow> (None, logAt LError uid (ActionError x) w')))"

fun runActions :: "env \<Rightarrow> json \<Rightarrow> json \<Rightarrow> json list \<Rightarrow> world \<Rightarrow> exn option \<times> world" where
  "runActions e eventData uid [] w = (None, w)"
| "runActions e eventData uid (action # rest) w =
     (case runAction e eventData uid action w of
        (Some x, w') \<Rightarrow> (Some x, w')
      | (None, w') \<Rightarrow> runActions e eventData uid rest w')"

text \<open>
  \<open>executeActions(actions, eventData)\<close>. Both callers pass an object literal as
  \<open>eventData\<close>, given here by its entries. The outer \<open>catch\<close> logs and returns.
\<close>

definition executeActions ::
    "env \<Rightarrow> json \<Rightarrow> (string \<times> json) list \<Rightarrow> world \<Rightarrow> exn option \<times> world" where
  "executeActions e acts entries w =
     (let eventData = JObj entries;
          uid = (case map_of entries ''userId'' of Some u \<Rightarrow> u | None \<Rightarrow> JUndef);
          attempt =
            (if \<not> truthy acts then (None, w)
             else case getProp acts ''list'' of
                 None \<Rightarrow> (Some TypeError, w)
               | Some l \<Rightarrow>
                   if \<not> truthy l then (None, w)
                   else (case js_iter l of
                       None \<Rightarrow> (Some TypeError, w)
                     | Some as \<Rightarrow> runActions e eventData uid as w))
      in case attempt of
           (None, w') \<Rightarrow> (None, w')
         | (Some x, w') \<Rightarrow> (None, logAt LError uid (ActionsError x) w'))"

section \<open>The configuration cache\<close>

definition RULES_CACHE_TTL :: nat where
  "RULES_CACHE_TTL = 5 * 60"

text \<open>
  \<open>getCachedSyncRules\<close>. Only this function writes keys \<open>sync_rules:...\<close>, and it writes
  rule lists; a truthy value of another kind under such a key is handed to the caller's
  \<open>for ... of\<close>, modelled as the TypeError a value that is not iterable raises there.
\<close>

definition getCachedSyncRules :: "env \<Rightarrow> string \<Rightarrow> world \<Rightarrow> (exn + syncRule list) \<times> world" where
  "getCachedSyncRules e userId w =
     (let cacheKey = ''sync_rules:'' @ userId;
          miss = (case getSyncRules e userId of
                    Inl x \<Rightarrow> (Inl x, w)
                  | Inr rules \<Rightarrow>
                      (Inr rules, logAt LInfo (JStr userId) CacheRulesStored
                                    (cache_set cacheKey (RulesVal rules) RULES_CACHE_TTL w)))
      in case cache_get w cacheKey of
           None \<Rightarrow> miss
         | Some (RulesVal cached) \<Rightarrow> (Inr cached, logAt LInfo (JStr userId) CacheRulesHit w)
         | Some (JsonVal j) \<Rightarrow>
             if truthy j then (Inl TypeError, logAt LInfo (JStr userId) CacheRulesHit w)
             else miss)"

definition clearAllCaches :: "world \<Rightarrow> world" where
  "clearAllCaches w =
     logAt LInfo JUndef CacheAllCleared
       ((flushPattern ''webhook:*''
          (flushPattern ''settings:*''
            (flushPattern ''metadata:*''
              (flushPattern ''sync_rules:*'' w))))\<lparr>connectionPools := []\<rparr>)"

definition invalidateUserCache :: "string \<Rightarrow> world \<Rightarrow> world" where
  "invalidateUserCache userId w =
     logAt LInfo (JStr userId) CacheUserCleared
       (flushPattern (''webhook:'' @ userId @ ''*'')
         (flushPattern (''settings:*:'' @ userId @ ''*'')
           (flushPattern (''metadata:*:'' @ userId @ ''*'')
             (flushPattern (''sync_rules:'' @ userId @ ''*'') w))))"

section \<open>Processing an LPTracker webhook\<close>

text \<open>The entries of \<open>{ ...webhookData, userId }\<close>.\<close>

definition spreadEntries :: "json \<Rightarrow> (string \<times> json) list" where
  "spreadEntries v = (case v of
      JObj kvs \<Rightarrow> kvs
    | JArr xs \<Rightarrow> zip (map (\<lambda>i. show_nat i) [0 ..< length xs]) xs
    | JStr s \<Rightarrow> zip (map (\<lambda>i. show_nat i) [0 ..< length s]) (map (\<lambda>c. JStr [c]) s)
    | _ \<Rightarrow> [])"

definition setEntry :: "string \<Rightarrow> json \<Rightarrow> (string \<times> json) list \<Rightarrow> (string \<times> json) list" where
  "setEntry k v kvs =
     (if k \<in> set (map fst kvs) then map (\<lambda>kv. if fst kv = k then (k, v) else kv) kvs
      else kvs @ [(k, v)])"

text \<open>
  The \<open>try\<close> block of one iteration of the rule loop of
  \<open>processLpTrackerWebhookDirect\<close>; the first component is the exception that leaves it.
\<close>

definition lpRuleAttempt :: "env \<Rightarrow> string \<Rightarrow> json \<Rightarrow> syncRule \<Rightarrow> world \<Rightarrow> exn option \<times> world" where
  "lpRuleAttempt e userId webhookData rule w =
     (if checkConditions (rt e) (conditions rule) webhookData then
        (case (do { i \<leftarrow> getProp webhookData ''id''; js_String i }) of
           None \<Rightarrow> (Some TypeError, w)
         | Some leadId \<Rightarrow>
             (let actionTimestamp =
                    (case getProp webhookData ''action_timestamp'' of Some t \<Rightarrow> t | None \<Rightarrow> JUndef)
              in case isWebhookAlreadyProcessed w userId leadId (ruleId rule) actionTimestamp of
                   None \<Rightarrow> (Some TypeError, w)
                 | Some True \<Rightarrow>
                     (None, logAt LInfo (JStr userId) (LpRuleAlreadyProcessed (ruleId rule)) w)
                 | Some False \<Rightarrow>
                     (case isWebhookRelevant webhookData rule of
                        None \<Rightarrow> (Some TypeError, w)
                      | Some False \<Rightarrow>
                          (None, logAt LInfo (JStr userId) (LpRuleNotRelevant (ruleId rule)) w)
                      | Some True \<Rightarrow>
                          (let w1 = logAt LInfo (JStr userId) (LpRuleApplicable (ruleId rule)) w
                           in case executeActions e (actions rule)
                                     (setEntry ''userId'' (JStr userId) (spreadEntries webhookData)) w1 of
                                (Some x, w2) \<Rightarrow> (Some x, w2)
                              | (None, w2) \<Rightarrow>
                                  (case markWebhookProcessedInRedis userId leadId (ruleId rule)
                                          actionTimestamp w2 of
                                     None \<Rightarrow> (Some TypeError, w2)
                                   | Some w3 \<Rightarrow> incrementRuleExecution e (ruleId rule) w3)))))
      else (None, logAt LInfo (JStr userId) (LpRuleNotApplicable (ruleId rule)) w))"

text \<open>One iteration: the \<open>catch\<close> logs the rule's error and the loop goes on.\<close>

definition lpRuleStep :: "env \<Rightarrow> string \<Rightarrow> json \<Rightarrow> syncRule \<Rightarrow> world \<Rightarrow> world" where
  "lpRuleStep e userId webhookData rule w =
     (case lpRuleAttempt e userId webhookData rule w of
        (None, w') \<Rightarrow> w'
      | (Some x, w') \<Rightarrow> logAt LError (JStr userId) (LpRuleError (ruleId rule) x) w')"

definition lpRuleLoop :: "env \<Rightarrow> string \<Rightarrow> json \<Rightarrow> syncRule list \<Rightarrow> world \<Rightarrow> world" where
  "lpRuleLoop e userId webhookData rules w =
     foldl (\<lambda>w' rule. lpRuleStep e userId webhookData rule w') w rules"

text \<open>
  \<open>findUserByProjectId\<close>: \<open>projectId.toString()\<close> is evaluated in each iteration, so only
  when there is a settings row; an exception is logged and answered by \<open>null\<close>.
\<close>

definition findUserByProjectId :: "env \<Rightarrow> json \<Rightarrow> world \<Rightarrow> string option \<times> world" where
  "findUserByProjectId e projectId w =
     (case getAllLpTrackerSettings e of
        Inl x \<Rightarrow> (None, logAt LError JUndef FindUserError w)
      | Inr allSettings \<Rightarrow>
          if allSettings = [] then (None, w)
          else (case js_String projectId of
              None \<Rightarrow> (None, logAt LError JUndef FindUserError w)
            | Some p \<Rightarrow>
                (case find (\<lambda>st. lpProjectId st = Some p) allSettings of
                   None \<Rightarrow> (None, w)
                 | Some st \<Rightarrow> (Some (lpUserId st), w))))"

text \<open>
  The \<open>try\<close> block of \<open>processLpTrackerWebhookDirect\<close>. \<open>(None, w)\<close> is a normal return,
  \<open>(Some x, w)\<close> the exception \<open>x\<close>.
\<close>

definition lpProcessAttempt :: "env \<Rightarrow> json \<Rightarrow> world \<Rightarrow> exn option \<times> world" where
  "lpProcessAttempt e payload w =
     (case getProp payload ''data'' of
        None \<Rightarrow> (Some TypeError, w)
      | Some d \<Rightarrow>
          (case (case d of
                   JStr str \<Rightarrow> if str \<noteq> [] then jsonParse (rt e) str else Some payload
                 | _ \<Rightarrow> Some payload) of
             None \<Rightarrow> (None, logAt LError JUndef LpParseError w)
           | Some webhookData \<Rightarrow>
               (case getProp webhookData ''project_id'' of
                  None \<Rightarrow> (Some TypeError, w)
                | Some projectId \<Rightarrow>
                    (let w1 = logAt LInfo JUndef LpAnalysis w
                     in if \<not> truthy projectId then (None, logAt LWarning JUndef LpNoProjectId w1)
                        else (case findUserByProjectId e projectId w1 of
                            (found, w2) \<Rightarrow>
                              (case (case found of
                                       None \<Rightarrow> None
                                     | Some u \<Rightarrow> if u = [] then None else Some u) of
                                 None \<Rightarrow>
                                   (case js_String projectId of
                                      None \<Rightarrow> (Some TypeError, w2)
                                    | Some _ \<Rightarrow> (None, logAt LWarning JUndef LpUserNotFound w2))
                               | Some userId \<Rightarrow>
                                   (case getCachedSyncRules e userId
                                           (logAt LInfo (JStr userId) LpProcessing w2) of
                                      (Inl x, w4) \<Rightarrow> (Some x, w4)
                                    | (Inr syncRules, w4) \<Rightarrow>
                                        (None, lpRuleLoop e userId webhookData syncRules w4))))))))"

text \<open>The outer \<open>catch\<close> logs the exception and throws it again.\<close>

definition processLpTrackerWebhookDirect :: "env \<Rightarrow> json \<Rightarrow> world \<Rightarrow> exn option \<times> world" where
  "processLpTrackerWebhookDirect e payload w =
     (case lpProcessAttempt e payload w of
        (None, w') \<Rightarrow> (None, w')
      | (Some x, w') \<Rightarrow> (Some x, logAt LError JUndef (LpWebhookError x) w'))"

section \<open>Processing an AmoCRM webhook\<close>

definition amoEventEntries ::
    "string \<Rightarrow> json \<Rightarrow> json \<Rightarrow> json list \<Rightarrow> json \<Rightarrow> (string \<times> json) list" where
  "amoEventEntries userId leadId leadDetails contactsDetails originalPayload =
     [(''leadId'', leadId), (''leadDetails'', leadDetails),
      (''contactsDetails'', JArr contactsDetails), (''webhookPayload'', originalPayload),
      (''userId'', JStr userId)]"

text \<open>
  The \<open>try\<close> block of one iteration of the rule loop of \<open>processLeadRules\<close>. The dedup
  check and mark are called without a timestamp. The messages of both branches convert
  \<open>leadId\<close> to a string.
\<close>

definition amoRuleAttempt ::
    "env \<Rightarrow> string \<Rightarrow> json \<Rightarrow> json \<Rightarrow> json list \<Rightarrow> json \<Rightarrow> syncRule \<Rightarrow> world
      \<Rightarrow> exn option \<times> world" where
  "amoRuleAttempt e userId leadId leadDetails contactsDetails originalPayload rule w =
     (let entries = amoEventEntries userId leadId leadDetails contactsDetails originalPayload
      in case getProp leadDetails ''pipeline_id'' of
           None \<Rightarrow> (Some TypeError, w)
         | Some _ \<Rightarrow>
             (let w1 = logAt LInfo (JStr userId) (AmoCheckRule (ruleId rule)) w
              in case js_String leadId of
                   None \<Rightarrow> (Some TypeError, w1)
                 | Some leadIdStr \<Rightarrow>
                     if checkConditions (rt e) (conditions rule) (JObj entries) then
                       (let w2 = logAt LInfo (JStr userId) (AmoRuleMatches (ruleId rule)) w1
                        in case isWebhookAlreadyProcessed w2 userId leadIdStr (ruleId rule) JUndef of
                             None \<Rightarrow> (Some TypeError, w2)
                           | Some True \<Rightarrow>
                               (None, logAt LInfo (JStr userId)
                                        (AmoRuleAlreadyProcessed (ruleId rule)) w2)
                           | Some False \<Rightarrow>
                               (case executeActions e (actions rule) entries w2 of
                                  (Some x, w3) \<Rightarrow> (Some x, w3)
                                | (None, w3) \<Rightarrow>
                                    (case markWebhookProcessedInRedis userId leadIdStr
                                            (ruleId rule) JUndef w3 of
                                       None \<Rightarrow> (Some TypeError, w3)
                                     | Some w4 \<Rightarrow> incrementRuleExecution e (ruleId rule) w4)))
                     else (None, logAt LInfo (JStr userId) (AmoRuleNoMatch (ruleId rule)) w1)))"

text \<open>
  One iteration: the \<open>catch\<close> logs the rule's error; its message converts \<open>leadId\<close> to a
  string, which may throw out of the handler.
\<close>

definition amoRuleStep ::
    "env \<Rightarrow> string \<Rightarrow> json \<Rightarrow> json \<Rightarrow> json list \<Rightarrow> json \<Rightarrow> syncRule \<Rightarrow> world
      \<Rightarrow> exn option \<times> world" where
  "amoRuleStep e userId leadId leadDetails contactsDetails originalPayload rule w =
     (case amoRuleAttempt e userId leadId leadDetails contactsDetails originalPayload rule w of
        (None, w') \<Rightarrow> (None, w')
      | (Some x, w') \<Rightarrow>
          (case js_String leadId of
             None \<Rightarrow> (Some TypeError, w')
           | Some _ \<Rightarrow> (None, logAt LError (JStr userId) (AmoRuleError (ruleId rule) x) w')))"

fun amoRuleLoop ::
    "env \<Rightarrow> string \<Rightarrow> json \<Rightarrow> json \<Rightarrow> json list \<Rightarrow> json \<Rightarrow> syncRule list \<Rightarrow> world
      \<Rightarrow> exn option \<times> world" where
  "amoRuleLoop e userId leadId leadDetails contactsDetails originalPayload [] w = (None, w)"
| "amoRuleLoop e userId leadId leadDetails contactsDetails originalPayload (rule # rest) w =
     (case amoRuleStep e userId leadId leadDetails contactsDetails originalPayload rule w of
        (Some x, w') \<Rightarrow> (Some x, w')
      | (None, w') \<Rightarrow>
          amoRuleLoop e userId leadId leadDetails contactsDetails originalPayload rest w')"

text \<open>
  The \<open>try\<close> block of \<open>processLeadRules\<close>: the rules come from the configuration store
  directly, filtered to the source \<open>amocrm\<close> and to active rules.
\<close>

definition leadRulesAttempt ::
    "env \<Rightarrow> string \<Rightarrow> json \<Rightarrow> json \<Rightarrow> json list \<Rightarrow> json \<Rightarrow> world \<Rightarrow> exn option \<times> world" where
  "leadRulesAttempt e userId leadId leadDetails contactsDetails originalPayload w =
     (case getSyncRules e userId of
        Inl x \<Rightarrow> (Some x, w)
      | Inr rules \<Rightarrow>
          (let amoCrmRules = filter (\<lambda>rule. webhookSource rule = ''amocrm'') rules;
               activeRules = filter (\<lambda>rule. isActive rule) amoCrmRules
           in case (do { _ \<leftarrow> js_String leadId; getProp leadDetails ''name'' }) of
                None \<Rightarrow> (Some TypeError, w)
              | Some _ \<Rightarrow>
                  amoRuleLoop e userId leadId leadDetails contactsDetails originalPayload
                    activeRules
                    (logAt LInfo (JStr userId) (AmoCheckingRules (length activeRules)) w)))"

text \<open>\<open>processLeadRules\<close>: the outer \<open>catch\<close> logs; its message converts \<open>leadId\<close> too.\<close>

definition processLeadRules ::
    "env \<Rightarrow> string \<Rightarrow> json \<Rightarrow> json \<Rightarrow> json list \<Rightarrow> json \<Rightarrow> world \<Rightarrow> exn option \<times> world" where
  "processLeadRules e userId leadId leadDetails contactsDetails originalPayload w =
     (case leadRulesAttempt e userId leadId leadDetails contactsDetails originalPayload w of
        (None, w') \<Rightarrow> (None, w')
      | (Some x, w') \<Rightarrow>
          (case js_String leadId of
             None \<Rightarrow> (Some TypeError, w')
           | Some _ \<Rightarrow> (None, logAt LError (JStr userId) (AmoRulesError x) w')))"

subsection \<open>Enrichment\<close>

text \<open>
  \<open>getLeadDetails\<close> and \<open>getContactDetails\<close>: the settings must carry a subdomain and an
  API key; a response that is not \<open>ok\<close> raises an error with its status.
\<close>

definition getLeadDetails :: "env \<Rightarrow> string \<Rightarrow> json \<Rightarrow> exn + json" where
  "getLeadDetails e userId leadId =
     (case getAmoCrmSettings e userId of
        Inl x \<Rightarrow> Inl x
      | Inr None \<Rightarrow> Inl SettingsNotFound
      | Inr (Some st) \<Rightarrow>
          if amoSubdomain st = [] \<or> amoApiKey st = [] then Inl SettingsNotFound
          else (case js_String leadId of
              None \<Rightarrow> Inl TypeError
            | Some lid \<Rightarrow>
                (case fetch e (''https://'' @ amoSubdomain st @ ''.amocrm.ru/api/v4/leads/'' @ lid
                         @ ''?with=contacts,companies,catalog_elements,loss_reason,source'')
                        (amoApiKey st) of
                   Inl x \<Rightarrow> Inl x
                 | Inr response \<Rightarrow>
                     if \<not> ok response then Inl (ApiError (status response)) else body response)))"

definition getContactDetails :: "env \<Rightarrow> string \<Rightarrow> json \<Rightarrow> exn + json" where
  "getContactDetails e userId contactId =
     (case getAmoCrmSettings e userId of
        Inl x \<Rightarrow> Inl x
      | Inr None \<Rightarrow> Inl SettingsNotFound
      | Inr (Some st) \<Rightarrow>
          if amoSubdomain st = [] \<or> amoApiKey st = [] then Inl SettingsNotFound
          else (case js_String contactId of
              None \<Rightarrow> Inl TypeError
            | Some cid \<Rightarrow>
                (case fetch e (''https://'' @ amoSubdomain st @ ''.amocrm.ru/api/v4/contacts/'' @ cid)
                        (amoApiKey st) of
                   Inl x \<Rightarrow> Inl x
                 | Inr response \<Rightarrow>
                     if \<not> ok response then Inl (ContactApiError (status response))
                     else body response)))"

text \<open>
  The loop over the lead's contacts: a contact whose details cannot be fetched is logged
  and skipped; the log messages convert \<open>contact.id\<close> to a string.
\<close>

fun fetchContacts ::
    "env \<Rightarrow> string \<Rightarrow> json list \<Rightarrow> json list \<Rightarrow> world \<Rightarrow> (exn + json list) \<times> world" where
  "fetchContacts e userId [] acc w = (Inr acc, w)"
| "fetchContacts e userId (contact # rest) acc w =
     (case (case getProp contact ''id'' of
              None \<Rightarrow> Inl TypeError
            | Some cid \<Rightarrow> getContactDetails e userId cid) of
        Inr contactDetails \<Rightarrow>
          fetchContacts e userId rest (acc @ [contactDetails])
            (logAt LInfo (JStr userId) AmoContactInfo w)
      | Inl x \<Rightarrow>
          (case (do { cid \<leftarrow> getProp contact ''id''; js_String cid }) of
             None \<Rightarrow> (Inl TypeError, w)
           | Some _ \<Rightarrow>
               fetchContacts e userId rest acc
                 (logAt LWarning (JStr userId) (AmoContactFailed x) w)))"

text \<open>\<open>findUserBySubdomain\<close>: any exception is answered by \<open>null\<close>.\<close>

fun scanUsers :: "env \<Rightarrow> json \<Rightarrow> string list \<Rightarrow> string option" where
  "scanUsers e subdomain [] = None"
| "scanUsers e subdomain (u # us) =
     (case getAmoCrmSettings e u of
        Inl x \<Rightarrow> None
      | Inr None \<Rightarrow> scanUsers e subdomain us
      | Inr (Some st) \<Rightarrow>
          if strictEq (JStr (amoSubdomain st)) subdomain then Some u
          else scanUsers e subdomain us)"

definition findUserBySubdomain :: "env \<Rightarrow> json \<Rightarrow> string option" where
  "findUserBySubdomain e subdomain =
     (case selectUsers e of Inl x \<Rightarrow> None | Inr us \<Rightarrow> scanUsers e subdomain us)"

text \<open>
  The inner \<open>try\<close> block of \<open>processAmoCrmWebhookDirect\<close>: fetch the lead, fetch its
  contacts, run the rules.
\<close>

definition amoEnrichAttempt :: "env \<Rightarrow> string \<Rightarrow> json \<Rightarrow> json \<Rightarrow> world \<Rightarrow> exn option \<times> world" where
  "amoEnrichAttempt e userId leadId payload w =
     (case getLeadDetails e userId leadId of
        Inl x \<Rightarrow> (Some x, w)
      | Inr leadDetails \<Rightarrow>
          (let w1 = logAt LInfo (JStr userId) AmoLeadDetails w
           in case (do { emb \<leftarrow> getProp leadDetails ''_embedded'';
                         optChain emb (\<lambda>m. getProp m ''contacts'') }) of
                None \<Rightarrow> (Some TypeError, w1)
              | Some cs \<Rightarrow>
                  (case (if truthy cs
                            \<and> (case js_length cs of Some n \<Rightarrow> gtZero (rt e) n | None \<Rightarrow> False)
                         then (case js_iter cs of
                                 None \<Rightarrow> (Inl TypeError, w1)
                               | Some l \<Rightarrow> fetchContacts e userId l [] w1)
                         else (Inr [], w1)) of
                     (Inl x, w2) \<Rightarrow> (Some x, w2)
                   | (Inr contactsDetails, w2) \<Rightarrow>
                       processLeadRules e userId leadId leadDetails contactsDetails payload w2)))"

text \<open>The lead id: the first populated key among add, status, update, delete; else \<open>null\<close>.\<close>

definition extractLeadId :: "json \<Rightarrow> json" where
  "extractLeadId payload =
     (let rd = (\<lambda>k. case getProp payload k of Some v \<Rightarrow> v | None \<Rightarrow> JUndef)
      in if truthy (rd ''leads[add][0][id]'') then rd ''leads[add][0][id]''
         else if truthy (rd ''leads[status][0][id]'') then rd ''leads[status][0][id]''
         else if truthy (rd ''leads[update][0][id]'') then rd ''leads[update][0][id]''
         else if truthy (rd ''leads[delete][0][id]'') then rd ''leads[delete][0][id]''
         else JNull)"

text \<open>
  The outer \<open>try\<close> block of \<open>processAmoCrmWebhookDirect\<close>. The handler of the inner
  \<open>try\<close> logs the enrichment error and does not throw it again.
\<close>

definition amoProcessAttempt :: "env \<Rightarrow> json \<Rightarrow> world \<Rightarrow> exn option \<times> world" where
  "amoProcessAttempt e payload w =
     (if payload = JUndef then (Some TypeError, w)
      else
        (let w1 = logAt LInfo JUndef AmoStart w
         in case getProp payload ''account[subdomain]'' of
              None \<Rightarrow> (Some TypeError, w1)
            | Some subdomain \<Rightarrow>
                if \<not> truthy subdomain then (None, logAt LWarning JUndef AmoNoSubdomain w1)
                else (case (case findUserBySubdomain e subdomain of
                              None \<Rightarrow> None
                            | Some u \<Rightarrow> if u = [] then None else Some u) of
                    None \<Rightarrow>
                      (case js_String subdomain of
                         None \<Rightarrow> (Some TypeError, w1)
                       | Some _ \<Rightarrow> (None, logAt LWarning JUndef AmoUserNotFound w1))
                  | Some userId \<Rightarrow>
                      (let leadId = extractLeadId payload
                       in if \<not> truthy leadId
                          then (None, logAt LWarning (JStr userId) AmoNoLeadId w1)
                          else (case amoEnrichAttempt e userId leadId payload w1 of
                              (None, w2) \<Rightarrow> (None, w2)
                            | (Some x, w2) \<Rightarrow>
                                (case js_String leadId of
                                   None \<Rightarrow> (Some TypeError, w2)
                                 | Some _ \<Rightarrow>
                                     (None, logAt LError (JStr userId)
                                              (AmoLeadFetchError x) w2)))))))"

text \<open>The outer \<open>catch\<close> logs the exception and throws it again.\<close>

definition processAmoCrmWebhookDirect :: "env \<Rightarrow> json \<Rightarrow> world \<Rightarrow> exn option \<times> world" where
  "processAmoCrmWebhookDirect e payload w =
     (case amoProcessAttempt e payload w of
        (None, w') \<Rightarrow> (None, w')
      | (Some x, w') \<Rightarrow> (Some x, logAt LError JUndef (AmoWebhookError x) w'))"

section \<open>The queue processor\<close>

text \<open>
  The handler registered for the topic \<open>amocrm-webhook\<close>: it completes the job when
  \<open>processAmoCrmWebhookDirect\<close> returns and fails it (for the queue to retry, 3 attempts)
  when it throws.
\<close>

datatype jobResult = Completed | Failed exn

definition amocrmWebhookProcessor :: "env \<Rightarrow> json \<Rightarrow> world \<Rightarrow> jobResult \<times> world" where
  "amocrmWebhookProcessor e payload w =
     (case processAmoCrmWebhookDirect e payload w of
        (None, w') \<Rightarrow> (Completed, logAt LInfo JUndef QueueAmoProcessed w')
      | (Some x, w') \<Rightarrow> (Failed x, logAt LError JUndef (QueueAmoError x) w'))"

section \<open>Notions used to state the properties\<close>

text \<open>A condition holds when its evaluation returns a truthy value.\<close>

definition holds :: "runtime \<Rightarrow> json \<Rightarrow> json \<Rightarrow> bool" where
  "holds r eventData condition =
     (case evalCondition r eventData condition of None \<Rightarrow> False | Some v \<Rightarrow> truthy v)"


text \<open>
  A runtime for concrete evaluations: on the values used below, \<open>==\<close> agrees with
  identity and \<open>> 0\<close> with the order of the integers.
\<close>

definition exampleRuntime :: runtime where
  "exampleRuntime = \<lparr> looseEq = (\<lambda>a b. a = b),
                       gtZero = (\<lambda>v. case v of JNum n \<Rightarrow> 0 < n | _ \<Rightarrow> False),
                       jsonParse = (\<lambda>s. None) \<rparr>"

text \<open>The conditions \<open>{type: "status", value: v}\<close> and an LPTracker event in stage 142.\<close>

definition statusIs :: "string \<Rightarrow> json" where
  "statusIs v = JObj [(''type'', JStr ''status''), (''value'', JStr v)]"

definition stage142 :: json where
  "stage142 = JObj [(''project_id'', JNum 5), (''id'', JNum 42), (''stage_id'', JNum 142)]"

text \<open>
  The part of the world that logging and adapter calls leave alone; the key the
  LPTracker loop checks and marks for a rule; the marker object; the event object handed
  to the actions; and what an iteration does once a rule has passed the condition, dedup
  and relevance checks (run the actions, mark the key, count the execution).
\<close>

definition store_of :: "world \<Rightarrow> nat \<times> bool \<times> (string \<times> cacheVal \<times> nat) list \<times> (int \<Rightarrow> nat)" where
  "store_of w = (clock w, redisUp w, redisStore w, execCount w)"

definition lpDedupKey :: "string \<Rightarrow> json \<Rightarrow> syncRule \<Rightarrow> string option" where
  "lpDedupKey userId webhookData rule = do {
     i \<leftarrow> getProp webhookData ''id'';
     leadId \<leftarrow> js_String i;
     generateWebhookKey userId leadId (ruleId rule)
       (case getProp webhookData ''action_timestamp'' of Some t \<Rightarrow> t | None \<Rightarrow> JUndef) }"

definition dedupMarker :: "world \<Rightarrow> cacheVal" where
  "dedupMarker w =
     JsonVal (JObj [(''processed'', JBool True), (''timestamp'', JNum (int (clock w) * 1000))])"

definition lpEventEntries :: "string \<Rightarrow> json \<Rightarrow> (string \<times> json) list" where
  "lpEventEntries userId webhookData = setEntry ''userId'' (JStr userId) (spreadEntries webhookData)"

definition lpDispatch :: "env \<Rightarrow> string \<Rightarrow> json \<Rightarrow> syncRule \<Rightarrow> string \<Rightarrow> world \<Rightarrow> world" where
  "lpDispatch e userId webhookData rule key w =
     (let w2 = snd (executeActions e (actions rule) (lpEventEntries userId webhookData)
                     (logAt LInfo (JStr userId) (LpRuleApplicable (ruleId rule)) w));
          w3 = setWithTTL key (dedupMarker w2) WEBHOOK_DEDUP_TTL w2
      in case incrementFails e (ruleId rule) of
           None \<Rightarrow> w3\<lparr>execCount := (execCount w3)(ruleId rule := Suc (execCount w3 (ruleId rule)))\<rparr>
         | Some x \<Rightarrow> logAt LError (JStr userId) (LpRuleError (ruleId rule) x) w3)"

definition markedUntil :: "world \<Rightarrow> string \<Rightarrow> nat \<Rightarrow> bool" where
  "markedUntil w key t =
     (\<exists>v expiry. map_of (redisStore w) (''crm:'' @ key) = Some (v, expiry) \<and> t \<le> expiry)"

definition lpDispatches :: "env \<Rightarrow> string \<Rightarrow> json \<Rightarrow> syncRule \<Rightarrow> world \<Rightarrow> bool" where
  "lpDispatches e userId webhookData rule w =
     (checkConditions (rt e) (conditions rule) webhookData
      \<and> (\<exists>key. lpDedupKey userId webhookData rule = Some key \<and> \<not> cache_exists w key)
      \<and> isWebhookRelevant webhookData rule = Some True)"

definition amoDedupKey :: "string \<Rightarrow> json \<Rightarrow> syncRule \<Rightarrow> string option" where
  "amoDedupKey userId leadId rule = do {
     leadIdStr \<leftarrow> js_String leadId;
     generateWebhookKey userId leadIdStr (ruleId rule) JUndef }"

definition amoDispatch ::
    "env \<Rightarrow> string \<Rightarrow> (string \<times> json) list \<Rightarrow> syncRule \<Rightarrow> string \<Rightarrow> world \<Rightarrow> world" where
  "amoDispatch e userId entries rule key w =
     (let w2 = logAt LInfo (JStr userId) (AmoRuleMatches (ruleId rule))
                 (logAt LInfo (JStr userId) (AmoCheckRule (ruleId rule)) w);
          w3 = snd (executeActions e (actions rule) entries w2);
          w4 = setWithTTL key (dedupMarker w3) WEBHOOK_DEDUP_TTL w3
      in case incrementFails e (ruleId rule) of
           None \<Rightarrow> w4\<lparr>execCount := (execCount w4)(ruleId rule := Suc (execCount w4 (ruleId rule)))\<rparr>
         | Some x \<Rightarrow> logAt LError (JStr userId) (AmoRuleError (ruleId rule) x) w4)"

definition amoDispatches ::
    "env \<Rightarrow> string \<Rightarrow> json \<Rightarrow> json \<Rightarrow> json list \<Rightarrow> json \<Rightarrow> syncRule \<Rightarrow> world \<Rightarrow> bool" where
  "amoDispatches e userId leadId leadDetails contactsDetails originalPayload rule w =
     (checkConditions (rt e) (conditions rule)
        (JObj (amoEventEntries userId leadId leadDetails contactsDetails originalPayload))
      \<and> (\<exists>key. amoDedupKey userId leadId rule = Some key \<and> \<not> cache_exists w key))"

text \<open>
  Concrete instances: a world with an empty Redis at second 1000; a rule (id 7) on stage
  142 with one action \<open>sync_to_amocrm\<close>; a second such rule (id 8); and collaborators
  whose adapters always fail.
\<close>

definition world0 :: world where
  "world0 = \<lparr> clock = 1000, redisUp = True, redisStore = [], execCount = (\<lambda>_. 0),
               syncCalls = [], logs = [], connectionPools = [] \<rparr>"

definition syncToAmo :: json where
  "syncToAmo = JObj [(''list'', JArr [JObj [(''type'', JStr ''sync_to_amocrm'')]])]"

definition rule7 :: syncRule where
  "rule7 = \<lparr> ruleId = 7, ruleName = ''stage 142'', webhookSource = ''lptracker'', isActive = True,
              conditions = JObj [(''rules'', JArr [statusIs ''142''])], actions = syncToAmo \<rparr>"

definition rule8 :: syncRule where
  "rule8 = rule7\<lparr> ruleId := 8 \<rparr>"

definition brokenEnv :: env where
  "brokenEnv = \<lparr> rt = exampleRuntime,
       getSyncRules = (\<lambda>u. Inr [rule7]),
       getAmoCrmSettings = (\<lambda>u. Inr (Some \<lparr> amoSubdomain = ''acme'', amoApiKey = ''k'' \<rparr>)),
       getAllLpTrackerSettings = Inr [\<lparr> lpProjectId = Some ''5'', lpUserId = ''u1'' \<rparr>],
       selectUsers = Inr [''u1''],
       incrementFails = (\<lambda>rid. None),
       syncFails = (\<lambda>c. Some (Failure ''adapter down'')),
       fetch = (\<lambda>url apiKey. Inl (Failure ''network'')) \<rparr>"

text \<open>An enriched AmoCRM lead in status 142.\<close>

definition lead142 :: json where
  "lead142 = JObj [(''pipeline_id'', JNum 3), (''status_id'', JNum 142)]"

text \<open>Collaborators whose adapters work and whose store fails to count rule 7.\<close>

definition flakyEnv :: env where
  "flakyEnv = brokenEnv\<lparr> incrementFails := (\<lambda>rid. if rid = 7 then Some (Failure ''db'') else None),
                          syncFails := (\<lambda>c. None) \<rparr>"

text \<open>The states after the rule loops have processed the event once.\<close>

definition afterFirstLp :: world where
  "afterFirstLp = lpRuleLoop brokenEnv ''u1'' stage142 [rule7] world0"

definition afterFirstAmo :: world where
  "afterFirstAmo = snd (amoRuleLoop brokenEnv ''u1'' (JStr ''77'') lead142 [] (JObj []) [rule7] world0)"

text \<open>An AmoCRM webhook for lead 77 of the account \<open>acme\<close>.\<close>

definition amoPayload :: json where
  "amoPayload = JObj [(''account[subdomain]'', JStr ''acme''), (''leads[add][0][id]'', JStr ''77'')]"

text \<open>
  An inactive rule tagged for AmoCRM, and collaborators whose configuration store holds
  only this rule and whose adapters work; a rule tagged for AmoCRM, collaborators whose
  store holds only that rule, and a world whose configuration cache holds an empty rule
  list for user \<open>u1\<close>.
\<close>

definition dormantRule :: syncRule where
  "dormantRule = rule7\<lparr> webhookSource := ''amocrm'', isActive := False \<rparr>"

definition dormantEnv :: env where
  "dormantEnv = brokenEnv\<lparr> getSyncRules := (\<lambda>u. Inr [dormantRule]), syncFails := (\<lambda>c. None) \<rparr>"

definition amoRule7 :: syncRule where
  "amoRule7 = rule7\<lparr> webhookSource := ''amocrm'' \<rparr>"

definition amoEnv :: env where
  "amoEnv = brokenEnv\<lparr> getSyncRules := (\<lambda>u. Inr [amoRule7]), syncFails := (\<lambda>c. None) \<rparr>"

definition cachedEmpty :: world where
  "cachedEmpty = cache_set ''sync_rules:u1'' (RulesVal []) RULES_CACHE_TTL world0"

text \<open>
  A user id without a character that is special in a glob pattern: interpolated into a
  pattern, it stands for itself.
\<close>

definition plainId :: "string \<Rightarrow> bool" where
  "plainId u = list_all (\<lambda>c. c \<noteq> CHR ''*'' \<and> c \<noteq> CHR ''?'' \<and> c \<noteq> CHR ''['' \<and> c \<noteq> backslash) u"

text \<open>
  What the relevance filter compares. An updated field touches a field name \<open>x\<close> when the
  callback of \<open>some\<close> answers \<open>true\<close>: \<open>x\<close> occurs in it, or it is \<open>custom.\<close> followed by
  \<open>x\<close>. The fields a rule refers to are the \<open>field\<close> of each condition that has one and
  whose type contains \<open>field_\<close>, and the keys of the \<open>fieldMappings\<close> of its actions.
\<close>

definition touches :: "json \<Rightarrow> json \<Rightarrow> bool" where
  "touches field x =
     (js_includes field x = Some True
      \<or> (case js_String x of Some p \<Rightarrow> field = JStr (''custom.'' @ p) | None \<Rightarrow> False))"

definition isFieldCondition :: "json \<Rightarrow> bool" where
  "isFieldCondition c =
     (case getProp c ''field'' of
        None \<Rightarrow> False
      | Some f \<Rightarrow> truthy f \<and>
          (case getProp c ''type'' of
             None \<Rightarrow> False
           | Some ty \<Rightarrow> \<not> nullish ty \<and> js_includes ty (JStr ''field_'') = Some True))"

definition fieldOf :: "json \<Rightarrow> json" where
  "fieldOf c = (case getProp c ''field'' of Some f \<Rightarrow> f | None \<Rightarrow> JUndef)"

definition conditionFields :: "syncRule \<Rightarrow> json list" where
  "conditionFields rule =
     (case optChain (conditions rule) (\<lambda>c. getProp c ''rules'') of
        None \<Rightarrow> []
      | Some crules \<Rightarrow>
          if truthy crules
          then (case js_iter crules of
                  None \<Rightarrow> []
                | Some cs \<Rightarrow> map fieldOf (filter isFieldCondition cs))
          else [])"

definition mappingKeys :: "json \<Rightarrow> json list" where
  "mappingKeys action =
     (case getProp action ''fieldMappings'' of
        None \<Rightarrow> []
      | Some fm \<Rightarrow> if truthy fm then map JStr (entry_keys fm) else [])"

definition mappedFields :: "syncRule \<Rightarrow> json list" where
  "mappedFields rule =
     (case optChain (actions rule) (\<lambda>a. getProp a ''list'') of
        None \<Rightarrow> []
      | Some alist \<Rightarrow>
          if truthy alist
          then (case js_iter alist of
                  None \<Rightarrow> []
                | Some as \<Rightarrow> concat (map mappingKeys as))
          else [])"

definition referencedFields :: "syncRule \<Rightarrow> json list" where
  "referencedFields rule = conditionFields rule @ mappedFields rule"

definition touched :: "json list \<Rightarrow> json list \<Rightarrow> bool" where
  "touched updatedFields refs = (\<exists>field \<in> set updatedFields. \<exists>x \<in> set refs. touches field x)"

text \<open>
  Following the words of the specification: the updated fields intersect the referenced
  fields when a field is in both lists.
\<close>

definition specIntersects :: "json list \<Rightarrow> json list \<Rightarrow> bool" where
  "specIntersects updatedFields refs = (set updatedFields \<inter> set refs \<noteq> {})"

text \<open>The world apart from its log.\<close>

definition unlogged :: "world \<Rightarrow> world" where
  "unlogged w = w\<lparr>logs := []\<rparr>"

text \<open>
  Concrete events and rules for the relevance filter: LPTracker events of lead 42 whose
  list of updated fields is \<open>company_name\<close>, \<open>email\<close> or \<open>stage_id\<close>; a rule with one
  condition on the field \<open>name\<close>; and a rule (id 8) on stage 142 whose action maps the
  field \<open>email\<close>.
\<close>

definition companyUpdate :: json where
  "companyUpdate = JObj [(''project_id'', JNum 5), (''id'', JNum 42),
     (''action_update_fields'', JArr [JStr ''company_name''])]"

definition emailUpdate :: json where
  "emailUpdate = JObj [(''project_id'', JNum 5), (''id'', JNum 42), (''stage_id'', JNum 142),
     (''action_update_fields'', JArr [JStr ''email''])]"

definition stageUpdate :: json where
  "stageUpdate = JObj [(''project_id'', JNum 5), (''id'', JNum 42),
     (''action_update_fields'', JArr [JStr ''stage_id''])]"

definition nameRule :: syncRule where
  "nameRule = rule7\<lparr> conditions := JObj [(''rules'', JArr [JObj [(''type'', JStr ''field_equals''),
                         (''field'', JStr ''name''), (''value'', JStr ''x'')]])] \<rparr>"

definition mappedRule :: syncRule where
  "mappedRule = rule8\<lparr> actions := JObj [(''list'', JArr [JObj [(''type'', JStr ''sync_to_amocrm''),
                           (''fieldMappings'', JObj [(''email'', JStr ''EMAIL'')])]])] \<rparr>"

text \<open>
  An LPTracker event in stage 142 whose custom field 7 holds the number 5, and the
  condition \<open>{type: "field_contains", field: 7, value: "x"}\<close>: evaluating it calls
  \<open>includes\<close> on a number, which throws.
\<close>

definition numericEvent :: json where
  "numericEvent = JObj [(''project_id'', JNum 5), (''id'', JNum 42), (''stage_id'', JNum 142),
     (''custom'', JArr [JObj [(''id'', JNum 7), (''value'', JNum 5)]])]"

definition containsX :: json where
  "containsX = JObj [(''type'', JStr ''field_contains''), (''field'', JNum 7), (''value'', JStr ''x'')]"

text \<open>
  The adapter call that the \<open>try\<close> block of one action makes, if it gets that far (the
  record could be built and the type is one of the two sync types); the calls of a list
  of actions; and the actions \<open>executeActions\<close> iterates over.
\<close>

definition plannedCall :: "runtime \<Rightarrow> json \<Rightarrow> json \<Rightarrow> json \<Rightarrow> syncCall option" where
  "plannedCall r uid eventData action =
     (case buildSyncRecord r action eventData of
        None \<Rightarrow> None
      | Some syncRecord \<Rightarrow>
          (let ty = (case getProp action ''type'' of Some t \<Rightarrow> t | None \<Rightarrow> JUndef);
               searchBy = (case getProp action ''searchBy'' of
                             Some sb \<Rightarrow> js_or sb (JStr ''phone'')
                           | None \<Rightarrow> JStr ''phone'')
           in if ty = JStr ''sync_to_amocrm'' then Some (AmoCrm, uid, syncRecord, searchBy)
              else if ty = JStr ''sync_to_lptracker'' then Some (LpTracker, uid, syncRecord, searchBy)
              else None))"

definition plannedCalls :: "runtime \<Rightarrow> json \<Rightarrow> json \<Rightarrow> json list \<Rightarrow> syncCall list" where
  "plannedCalls r uid eventData as =
     concat (map (\<lambda>a. case plannedCall r uid eventData a of None \<Rightarrow> [] | Some c \<Rightarrow> [c]) as)"

definition actionList :: "json \<Rightarrow> json list" where
  "actionList acts =
     (if \<not> truthy acts then []
      else case getProp acts ''list'' of
          None \<Rightarrow> []
        | Some l \<Rightarrow> if \<not> truthy l then [] else (case js_iter l of None \<Rightarrow> [] | Some as \<Rightarrow> as))"

definition entryUserId :: "(string \<times> json) list \<Rightarrow> json" where
  "entryUserId entries = (case map_of entries ''userId'' of Some u \<Rightarrow> u | None \<Rightarrow> JUndef)"

text \<open>
  Full runs for the dedup marker. The state in which the rule loop of an LPTracker run
  starts when the rules of user \<open>u1\<close> are not in the cache; a first run and a second
  one 599 seconds later; a second run right after \<open>invalidateUserCache\<close>; two runs in
  a row while Redis is down; and two AmoCRM runs 599 seconds apart.
\<close>

definition lpStart :: "world \<Rightarrow> world" where
  "lpStart w = logAt LInfo (JStr ''u1'') CacheRulesStored
     (cache_set ''sync_rules:u1'' (RulesVal [rule7]) RULES_CACHE_TTL
       (logAt LInfo (JStr ''u1'') LpProcessing (logAt LInfo JUndef LpAnalysis w)))"

definition firstRunLp :: world where
  "firstRunLp = snd (processLpTrackerWebhookDirect brokenEnv stage142 world0)"

definition secondRunLp :: world where
  "secondRunLp = snd (processLpTrackerWebhookDirect brokenEnv stage142 (firstRunLp\<lparr>clock := 1599\<rparr>))"

definition flushedRunLp :: world where
  "flushedRunLp = snd (processLpTrackerWebhookDirect brokenEnv stage142
                         (invalidateUserCache ''u1'' firstRunLp))"

definition downFirstRunLp :: world where
  "downFirstRunLp = snd (processLpTrackerWebhookDirect brokenEnv stage142 (world0\<lparr>redisUp := False\<rparr>))"

definition downSecondRunLp :: world where
  "downSecondRunLp = snd (processLpTrackerWebhookDirect brokenEnv stage142 downFirstRunLp)"

definition firstRunAmo :: world where
  "firstRunAmo = snd (processLeadRules amoEnv ''u1'' (JStr ''77'') lead142 [] (JObj []) world0)"

definition secondRunAmo :: world where
  "secondRunAmo = snd (processLeadRules amoEnv ''u1'' (JStr ''77'') lead142 [] (JObj [])
                         (firstRunAmo\<lparr>clock := 1599\<rparr>))"

section \<open>Basic facts about values\<close>

lemma truthy_simps [simp]:
  "truthy JUndef = False" "truthy JNull = False" "truthy (JBool b) = b"
  "truthy (JNum n) = (n \<noteq> 0)" "truthy (JStr s) = (s \<noteq> [])" "truthy (JArr xs) = True"
  "truthy (JObj kvs) = True"
  by (simp_all add: truthy_def)

lemma getProp_simps [simp]:
  "getProp JUndef p = None" "getProp JNull p = None"
  "getProp (JBool b) p = Some JUndef" "getProp (JNum n) p = Some JUndef"
  "getProp (JStr s) p = Some JUndef" "getProp (JArr xs) p = Some JUndef"
  "getProp (JObj kvs) p = Some (case map_of kvs p of Some x \<Rightarrow> x | None \<Rightarrow> JUndef)"
  by (simp_all add: getProp_def split: option.splits)

lemma map_list_total:
  "\<forall>c \<in> set cs. f c \<noteq> None \<Longrightarrow> map_list f cs = Some (map (\<lambda>c. the (f c)) cs)"
  by (induction cs) auto


lemma show_nat_digit: "n < 10 \<Longrightarrow> show_nat n = [digit_char n]"
  by (simp add: show_nat.simps)

lemma show_nat_step: "\<not> n < 10 \<Longrightarrow> show_nat n = show_nat (n div 10) @ [digit_char (n mod 10)]"
  by (subst show_nat.simps) simp

section \<open>The condition evaluator: fail-closed behaviour and operators\<close>





lemma operator_OR:
  "strictEq (js_or (case map_of kvs ''operator'' of Some x \<Rightarrow> x | None \<Rightarrow> JUndef) (JStr ''AND''))
     (JStr ''OR'') = (map_of kvs ''operator'' = Some (JStr ''OR''))"
proof (cases "map_of kvs ''operator''")
  case None
  then show ?thesis by (simp add: js_or_def strictEq_def)
next
  case (Some x)
  then show ?thesis by (cases x) (auto simp add: js_or_def strictEq_def)
qed

lemma cc_array:
  "map_of kvs ''rules'' = Some (JArr cs) \<Longrightarrow>
   checkConditions r (JObj kvs) ev =
     (case map_list (evalCondition r ev) cs of
        None \<Rightarrow> False
      | Some results \<Rightarrow> if map_of kvs ''operator'' = Some (JStr ''OR'')
                         then list_ex truthy results else list_all truthy results)"
  by (simp add: checkConditions_def checkConditions_body_def operator_OR split: option.splits)




lemma cc_operator:
  assumes "map_of kvs ''rules'' = Some (JArr cs)" "\<forall>c \<in> set cs. evalCondition r ev c \<noteq> None"
  shows "checkConditions r (JObj kvs) ev =
     (if map_of kvs ''operator'' = Some (JStr ''OR'') then (\<exists>c \<in> set cs. holds r ev c)
      else (\<forall>c \<in> set cs. holds r ev c))"
proof -
  have m: "map_list (evalCondition r ev) cs = Some (map (\<lambda>c. the (evalCondition r ev c)) cs)"
    using assms(2) by (rule map_list_total)
  have h: "\<And>c. c \<in> set cs \<Longrightarrow> truthy (the (evalCondition r ev c)) = holds r ev c"
    using assms(2) by (auto simp: holds_def)
  show ?thesis using assms(1) m h
    by (simp add: cc_array list_ex_iff list_all_iff)
qed

lemma status_eval:
  "evalCondition exampleRuntime stage142 (statusIs v) = Some (JBool (''142'' = v))"
  by (simp add: evalCondition_def statusIs_def stage142_def optChain_def nullish_def
      sameString_def show_int_def show_nat_step show_nat_digit digit_char_def)




section \<open>Frame properties of the action dispatcher\<close>

lemma store_of_logAt [simp]: "store_of (logAt l u m w) = store_of w"
  by (simp add: store_of_def logAt_def)

lemma store_of_callAdapter [simp]: "store_of (snd (callAdapter e c w)) = store_of w"
  by (simp add: store_of_def callAdapter_def)

lemma actionAttempt_store: "store_of (snd (actionAttempt e ev uid a w)) = store_of w"
  by (simp add: actionAttempt_def Let_def split: option.splits)

lemma runAction_store: "store_of (snd (runAction e ev uid a w)) = store_of w"
proof (cases "actionAttempt e ev uid a w")
  case (Pair x w')
  with actionAttempt_store[of e ev uid a w] show ?thesis
    by (simp add: runAction_def split: option.splits)
qed

lemma runActions_store: "store_of (snd (runActions e ev uid as w)) = store_of w"
proof (induction as arbitrary: w)
  case Nil
  show ?case by simp
next
  case (Cons a as)
  show ?case
  proof (cases "runAction e ev uid a w")
    case (Pair x w')
    with runAction_store[of e ev uid a w] Cons[of w'] show ?thesis
      by (cases x) simp_all
  qed
qed

lemma executeActions_returns: "fst (executeActions e a entries w) = None"
  by (simp add: executeActions_def Let_def split: option.splits prod.splits)

lemma executeActions_store: "store_of (snd (executeActions e a entries w)) = store_of w"
proof -
  define uid where "uid = (case map_of entries ''userId'' of Some u \<Rightarrow> u | None \<Rightarrow> JUndef)"
  define attempt where "attempt =
            (if \<not> truthy a then (None, w)
             else case getProp a ''list'' of
                 None \<Rightarrow> (Some TypeError, w)
               | Some l \<Rightarrow>
                   if \<not> truthy l then (None, w)
                   else (case js_iter l of
                       None \<Rightarrow> (Some TypeError, w)
                     | Some as \<Rightarrow> runActions e (JObj entries) uid as w))"
  have att: "store_of (snd attempt) = store_of w"
    unfolding attempt_def by (simp add: runActions_store split: option.splits)
  have "executeActions e a entries w =
      (case attempt of (None, w') \<Rightarrow> (None, w')
        | (Some x, w') \<Rightarrow> (None, logAt LError uid (ActionsError x) w'))"
    unfolding executeActions_def attempt_def uid_def by (simp add: Let_def)
  then show ?thesis using att by (cases attempt) (auto split: option.splits)
qed

lemma executeActions_eq:
  "executeActions e a entries w = (None, snd (executeActions e a entries w))"
  using executeActions_returns[of e a entries w] by (cases "executeActions e a entries w") simp

lemma lpRuleStep_cases:
  "lpRuleStep e u wd r w =
     (if \<not> checkConditions (rt e) (conditions r) wd
      then logAt LInfo (JStr u) (LpRuleNotApplicable (ruleId r)) w
      else case lpDedupKey u wd r of
          None \<Rightarrow> logAt LError (JStr u) (LpRuleError (ruleId r) TypeError) w
        | Some key \<Rightarrow>
            if cache_exists w key then logAt LInfo (JStr u) (LpRuleAlreadyProcessed (ruleId r)) w
            else (case isWebhookRelevant wd r of
                None \<Rightarrow> logAt LError (JStr u) (LpRuleError (ruleId r) TypeError) w
              | Some False \<Rightarrow> logAt LInfo (JStr u) (LpRuleNotRelevant (ruleId r)) w
              | Some True \<Rightarrow> lpDispatch e u wd r key w))"
proof (cases "checkConditions (rt e) (conditions r) wd")
  case False
  then show ?thesis by (simp add: lpRuleStep_def lpRuleAttempt_def)
next
  case cc: True
  show ?thesis
  proof (cases "getProp wd ''id''")
    case None
    with cc show ?thesis by (simp add: lpRuleStep_def lpRuleAttempt_def lpDedupKey_def)
  next
    case (Some i)
    show ?thesis
    proof (cases "js_String i")
      case None
      with cc Some show ?thesis by (simp add: lpRuleStep_def lpRuleAttempt_def lpDedupKey_def)
    next
      case sl: (Some leadId)
      let ?ts = "case getProp wd ''action_timestamp'' of Some t \<Rightarrow> t | None \<Rightarrow> JUndef"
      show ?thesis
      proof (cases "generateWebhookKey u leadId (ruleId r) ?ts")
        case None
        with cc Some sl show ?thesis
          by (simp add: lpRuleStep_def lpRuleAttempt_def lpDedupKey_def isWebhookAlreadyProcessed_def)
      next
        case k: (Some key)
        show ?thesis
        proof (cases "cache_exists w key")
          case True
          with cc Some sl k show ?thesis
            by (simp add: lpRuleStep_def lpRuleAttempt_def lpDedupKey_def isWebhookAlreadyProcessed_def)
        next
          case ne: False
          show ?thesis
          proof (cases "isWebhookRelevant wd r")
            case None
            with cc Some sl k ne show ?thesis
              by (simp add: lpRuleStep_def lpRuleAttempt_def lpDedupKey_def isWebhookAlreadyProcessed_def)
          next
            case rel: (Some b)
            show ?thesis
            proof (cases b)
              case False
              with cc Some sl k ne rel show ?thesis
                by (simp add: lpRuleStep_def lpRuleAttempt_def lpDedupKey_def isWebhookAlreadyProcessed_def)
            next
              case True
              have ex: "executeActions e (actions r) (setEntry ''userId'' (JStr u) (spreadEntries wd))
                    (logAt LInfo (JStr u) (LpRuleApplicable (ruleId r)) w)
                  = (None, snd (executeActions e (actions r) (setEntry ''userId'' (JStr u) (spreadEntries wd))
                    (logAt LInfo (JStr u) (LpRuleApplicable (ruleId r)) w)))"
                by (rule executeActions_eq)
              from cc Some sl k ne rel True show ?thesis
                apply (simp add: lpRuleStep_def lpRuleAttempt_def lpDedupKey_def isWebhookAlreadyProcessed_def Let_def)
                apply (subst ex)
                apply (simp add: markWebhookProcessedInRedis_def incrementRuleExecution_def lpDispatch_def
                    lpEventEntries_def dedupMarker_def Let_def split: option.splits)
                done
            qed
          qed
        qed
      qed
    qed
  qed
qed

section \<open>Deduplication markers through the LPTracker rule loop\<close>

lemma store_ofD:
  "store_of w' = store_of w \<Longrightarrow>
   clock w' = clock w \<and> redisUp w' = redisUp w \<and> redisStore w' = redisStore w
   \<and> execCount w' = execCount w"
  by (simp add: store_of_def)

lemma cache_exists_marked:
  "cache_exists w key = (redisUp w \<and> markedUntil w key (Suc (clock w)))"
  by (auto simp add: cache_exists_def redis_lookup_def markedUntil_def split: option.splits)

lemma markedUntil_mono: "markedUntil w key t \<Longrightarrow> t' \<le> t \<Longrightarrow> markedUntil w key t'"
  by (auto simp add: markedUntil_def)

lemma markedUntil_store:
  "redisStore w' = redisStore w \<Longrightarrow> markedUntil w' key t = markedUntil w key t"
  by (simp add: markedUntil_def)

lemma map_of_filter_fst:
  "map_of (filter (\<lambda>kv. P (fst kv)) xs) k = (if P k then map_of xs k else None)"
  by (induction xs) auto

lemma map_of_setex:
  "map_of (redisStore (redis_setex k ttl v w)) k' =
     (if k' = k then Some (v, clock w + ttl) else map_of (redisStore w) k')"
  using map_of_filter_fst[of "\<lambda>x. x \<noteq> k" "redisStore w" k']
  by (simp add: redis_setex_def)

lemma setWithTTL_fields [simp]:
  "clock (setWithTTL key v ttl w) = clock w"
  "redisUp (setWithTTL key v ttl w) = redisUp w"
  "execCount (setWithTTL key v ttl w) = execCount w"
  "syncCalls (setWithTTL key v ttl w) = syncCalls w"
  "logs (setWithTTL key v ttl w) = logs w"
  by (simp_all add: setWithTTL_def redis_setex_def)

lemma logAt_fields [simp]:
  "clock (logAt l u m w) = clock w"
  "redisUp (logAt l u m w) = redisUp w"
  "redisStore (logAt l u m w) = redisStore w"
  "execCount (logAt l u m w) = execCount w"
  "syncCalls (logAt l u m w) = syncCalls w"
  "logs (logAt l u m w) = logs w @ [(l, u, m)]"
  by (simp_all add: logAt_def)

lemma markedUntil_logAt [simp]: "markedUntil (logAt l u m w) key t = markedUntil w key t"
  by (simp add: markedUntil_def)

lemma cache_exists_logAt [simp]: "cache_exists (logAt l u m w) key = cache_exists w key"
  by (simp add: cache_exists_marked)

lemma markedUntil_setWithTTL_same:
  "redisUp w \<Longrightarrow> markedUntil (setWithTTL key v ttl w) key (clock w + ttl)"
  by (simp add: markedUntil_def setWithTTL_def map_of_setex)

lemma markedUntil_setWithTTL_keep:
  "markedUntil w key t \<Longrightarrow> t \<le> clock w + ttl \<Longrightarrow> markedUntil (setWithTTL key' v ttl w) key t"
  by (auto simp add: markedUntil_def setWithTTL_def map_of_setex)

lemma executeActions_fields:
  "clock (snd (executeActions e a entries w)) = clock w"
  "redisUp (snd (executeActions e a entries w)) = redisUp w"
  "redisStore (snd (executeActions e a entries w)) = redisStore w"
  "execCount (snd (executeActions e a entries w)) = execCount w"
  using store_ofD[OF executeActions_store[of e a entries w]] by simp_all

lemma lpDispatch_fields:
  "clock (lpDispatch e u wd r key w) = clock w"
  "redisUp (lpDispatch e u wd r key w) = redisUp w"
  by (simp_all add: lpDispatch_def Let_def executeActions_fields split: option.splits)

lemma lpDispatch_marks:
  "redisUp w \<Longrightarrow> markedUntil (lpDispatch e u wd r key w) key (clock w + WEBHOOK_DEDUP_TTL)"
proof -
  assume up: "redisUp w"
  let ?w2 = "snd (executeActions e (actions r) (lpEventEntries u wd)
                     (logAt LInfo (JStr u) (LpRuleApplicable (ruleId r)) w))"
  have "redisUp ?w2" "clock ?w2 = clock w" using up by (simp_all add: executeActions_fields)
  then have "markedUntil (setWithTTL key (dedupMarker ?w2) WEBHOOK_DEDUP_TTL ?w2) key
      (clock w + WEBHOOK_DEDUP_TTL)"
    using markedUntil_setWithTTL_same[of ?w2 key "dedupMarker ?w2" WEBHOOK_DEDUP_TTL] by simp
  then show ?thesis
    by (simp add: lpDispatch_def Let_def markedUntil_def split: option.splits)
qed

lemma lpDispatch_keeps:
  assumes "markedUntil w k t" "t \<le> clock w + WEBHOOK_DEDUP_TTL"
  shows "markedUntil (lpDispatch e u wd r key w) k t"
proof -
  let ?w2 = "snd (executeActions e (actions r) (lpEventEntries u wd)
                     (logAt LInfo (JStr u) (LpRuleApplicable (ruleId r)) w))"
  have "markedUntil ?w2 k t" "clock ?w2 = clock w"
    using assms(1) by (simp_all add: executeActions_fields markedUntil_def)
  then have "markedUntil (setWithTTL key (dedupMarker ?w2) WEBHOOK_DEDUP_TTL ?w2) k t"
    using markedUntil_setWithTTL_keep[of ?w2 k t WEBHOOK_DEDUP_TTL key "dedupMarker ?w2"] assms(2)
    by simp
  then show ?thesis
    by (simp add: lpDispatch_def Let_def markedUntil_def split: option.splits)
qed

lemma lpDispatch_counts:
  "incrementFails e (ruleId r) = None \<Longrightarrow>
   execCount (lpDispatch e u wd r key w) (ruleId r) = Suc (execCount w (ruleId r))"
  by (simp add: lpDispatch_def Let_def executeActions_fields)

lemma lpRuleStep_fields:
  "clock (lpRuleStep e u wd r w) = clock w"
  "redisUp (lpRuleStep e u wd r w) = redisUp w"
  by (simp_all add: lpRuleStep_cases lpDispatch_fields split: option.splits bool.splits)

lemma lpRuleStep_keeps:
  assumes "markedUntil w k t" "t \<le> clock w + WEBHOOK_DEDUP_TTL"
  shows "markedUntil (lpRuleStep e u wd r w) k t"
  using assms by (simp add: lpRuleStep_cases lpDispatch_keeps split: option.splits bool.splits)

lemma lpRuleLoop_Nil [simp]: "lpRuleLoop e u wd [] w = w"
  by (simp add: lpRuleLoop_def)

lemma lpRuleLoop_Cons [simp]:
  "lpRuleLoop e u wd (r # rs) w = lpRuleLoop e u wd rs (lpRuleStep e u wd r w)"
  by (simp add: lpRuleLoop_def)

lemma lpRuleLoop_append:
  "lpRuleLoop e u wd (rs @ rs') w = lpRuleLoop e u wd rs' (lpRuleLoop e u wd rs w)"
  by (simp add: lpRuleLoop_def)

lemma lpRuleLoop_fields:
  "clock (lpRuleLoop e u wd rs w) = clock w \<and> redisUp (lpRuleLoop e u wd rs w) = redisUp w"
  by (induction rs arbitrary: w) (simp_all add: lpRuleStep_fields)

lemma lpRuleLoop_keeps:
  "markedUntil w k t \<Longrightarrow> t \<le> clock w + WEBHOOK_DEDUP_TTL \<Longrightarrow>
   markedUntil (lpRuleLoop e u wd rs w) k t"
proof (induction rs arbitrary: w)
  case Nil
  then show ?case by simp
next
  case (Cons r rs)
  have "markedUntil (lpRuleStep e u wd r w) k t" using Cons.prems by (rule lpRuleStep_keeps)
  moreover have "t \<le> clock (lpRuleStep e u wd r w) + WEBHOOK_DEDUP_TTL"
    using Cons.prems(2) by (simp add: lpRuleStep_fields)
  ultimately show ?case using Cons.IH by simp
qed

lemma lpRuleStep_dispatch:
  "lpDispatches e u wd r w \<Longrightarrow> lpDedupKey u wd r = Some key \<Longrightarrow>
   lpRuleStep e u wd r w = lpDispatch e u wd r key w"
  by (auto simp add: lpDispatches_def lpRuleStep_cases)

lemma lpRuleStep_already:
  "checkConditions (rt e) (conditions r) wd \<Longrightarrow> lpDedupKey u wd r = Some key \<Longrightarrow>
   cache_exists w key \<Longrightarrow>
   lpRuleStep e u wd r w = logAt LInfo (JStr u) (LpRuleAlreadyProcessed (ruleId r)) w"
  by (simp add: lpRuleStep_cases)

section \<open>Deduplication markers through the AmoCRM rule loop\<close>

lemma generateWebhookKey_default:
  "generateWebhookKey u l rid JUndef =
     Some (''webhook:'' @ u @ '':'' @ l @ '':'' @ show_int rid @ '':default'')"
  by (simp add: generateWebhookKey_def js_or_def)

lemma amoDedupKey_Some:
  "amoDedupKey u leadId r = Some key \<Longrightarrow>
   \<exists>s. js_String leadId = Some s \<and> generateWebhookKey u s (ruleId r) JUndef = Some key"
  by (cases "js_String leadId") (simp_all add: amoDedupKey_def)

lemma amoRuleStep_cases:
  assumes key: "amoDedupKey u leadId r = Some key"
    and ld: "getProp ld ''pipeline_id'' \<noteq> None"
  shows "amoRuleStep e u leadId ld cds pl r w =
     (None,
      if \<not> checkConditions (rt e) (conditions r) (JObj (amoEventEntries u leadId ld cds pl))
      then logAt LInfo (JStr u) (AmoRuleNoMatch (ruleId r))
             (logAt LInfo (JStr u) (AmoCheckRule (ruleId r)) w)
      else if cache_exists w key
      then logAt LInfo (JStr u) (AmoRuleAlreadyProcessed (ruleId r))
             (logAt LInfo (JStr u) (AmoRuleMatches (ruleId r))
               (logAt LInfo (JStr u) (AmoCheckRule (ruleId r)) w))
      else amoDispatch e u (amoEventEntries u leadId ld cds pl) r key w)"
proof -
  from amoDedupKey_Some[OF key] obtain s where
    s: "js_String leadId = Some s" and k: "generateWebhookKey u s (ruleId r) JUndef = Some key"
    by blast
  from ld obtain p where p: "getProp ld ''pipeline_id'' = Some p" by blast
  let ?ev = "amoEventEntries u leadId ld cds pl"
  let ?w2 = "logAt LInfo (JStr u) (AmoRuleMatches (ruleId r))
                 (logAt LInfo (JStr u) (AmoCheckRule (ruleId r)) w)"
  show ?thesis
  proof (cases "checkConditions (rt e) (conditions r) (JObj ?ev)")
    case False
    with s p show ?thesis by (simp add: amoRuleStep_def amoRuleAttempt_def Let_def)
  next
    case cc: True
    show ?thesis
    proof (cases "cache_exists w key")
      case True
      with cc s p k show ?thesis
        by (simp add: amoRuleStep_def amoRuleAttempt_def Let_def isWebhookAlreadyProcessed_def)
    next
      case False
      have ex: "executeActions e (actions r) ?ev ?w2 = (None, snd (executeActions e (actions r) ?ev ?w2))"
        by (rule executeActions_eq)
      from cc s p k False show ?thesis
        apply (simp add: amoRuleStep_def amoRuleAttempt_def Let_def isWebhookAlreadyProcessed_def)
        apply (subst ex)
        apply (simp add: markWebhookProcessedInRedis_def incrementRuleExecution_def amoDispatch_def
            dedupMarker_def Let_def split: option.splits)
        done
    qed
  qed
qed

lemma amoDispatch_fields:
  "clock (amoDispatch e u ev r key w) = clock w"
  "redisUp (amoDispatch e u ev r key w) = redisUp w"
  by (simp_all add: amoDispatch_def Let_def executeActions_fields split: option.splits)

lemma amoDispatch_marks:
  "redisUp w \<Longrightarrow> markedUntil (amoDispatch e u ev r key w) key (clock w + WEBHOOK_DEDUP_TTL)"
proof -
  assume up: "redisUp w"
  let ?w3 = "snd (executeActions e (actions r) ev
               (logAt LInfo (JStr u) (AmoRuleMatches (ruleId r))
                 (logAt LInfo (JStr u) (AmoCheckRule (ruleId r)) w)))"
  have "redisUp ?w3" "clock ?w3 = clock w" using up by (simp_all add: executeActions_fields)
  then have "markedUntil (setWithTTL key (dedupMarker ?w3) WEBHOOK_DEDUP_TTL ?w3) key
      (clock w + WEBHOOK_DEDUP_TTL)"
    using markedUntil_setWithTTL_same[of ?w3 key "dedupMarker ?w3" WEBHOOK_DEDUP_TTL] by simp
  then show ?thesis
    by (simp add: amoDispatch_def Let_def markedUntil_def split: option.splits)
qed

lemma amoDispatch_keeps:
  assumes "markedUntil w k t" "t \<le> clock w + WEBHOOK_DEDUP_TTL"
  shows "markedUntil (amoDispatch e u ev r key w) k t"
proof -
  let ?w3 = "snd (executeActions e (actions r) ev
               (logAt LInfo (JStr u) (AmoRuleMatches (ruleId r))
                 (logAt LInfo (JStr u) (AmoCheckRule (ruleId r)) w)))"
  have "markedUntil ?w3 k t" "clock ?w3 = clock w"
    using assms(1) by (simp_all add: executeActions_fields markedUntil_def)
  then have "markedUntil (setWithTTL key (dedupMarker ?w3) WEBHOOK_DEDUP_TTL ?w3) k t"
    using markedUntil_setWithTTL_keep[of ?w3 k t WEBHOOK_DEDUP_TTL key "dedupMarker ?w3"] assms(2)
    by simp
  then show ?thesis
    by (simp add: amoDispatch_def Let_def markedUntil_def split: option.splits)
qed

lemma amoDispatch_counts:
  "incrementFails e (ruleId r) = None \<Longrightarrow>
   execCount (amoDispatch e u ev r key w) (ruleId r) = Suc (execCount w (ruleId r))"
  by (simp add: amoDispatch_def Let_def executeActions_fields)

text \<open>Every rule has a key when the lead id converts to a string.\<close>

lemma amoDedupKey_total:
  "js_String leadId = Some s \<Longrightarrow> \<exists>key. amoDedupKey u leadId r = Some key"
  by (simp add: amoDedupKey_def generateWebhookKey_default)

lemma amoRuleStep_returns:
  assumes "js_String leadId = Some s" "getProp ld ''pipeline_id'' \<noteq> None"
  shows "fst (amoRuleStep e u leadId ld cds pl r w) = None"
proof -
  from amoDedupKey_total[OF assms(1)] obtain key where "amoDedupKey u leadId r = Some key" by blast
  from amoRuleStep_cases[OF this assms(2)] show ?thesis by simp
qed

lemma amoRuleStep_fields:
  assumes "js_String leadId = Some s" "getProp ld ''pipeline_id'' \<noteq> None"
  shows "clock (snd (amoRuleStep e u leadId ld cds pl r w)) = clock w
       \<and> redisUp (snd (amoRuleStep e u leadId ld cds pl r w)) = redisUp w"
proof -
  from amoDedupKey_total[OF assms(1)] obtain key where "amoDedupKey u leadId r = Some key" by blast
  from amoRuleStep_cases[OF this assms(2)] show ?thesis by (simp add: amoDispatch_fields)
qed

lemma amoRuleStep_keeps:
  assumes "js_String leadId = Some s" "getProp ld ''pipeline_id'' \<noteq> None"
    "markedUntil w k t" "t \<le> clock w + WEBHOOK_DEDUP_TTL"
  shows "markedUntil (snd (amoRuleStep e u leadId ld cds pl r w)) k t"
proof -
  from amoDedupKey_total[OF assms(1)] obtain key where "amoDedupKey u leadId r = Some key" by blast
  from amoRuleStep_cases[OF this assms(2)] assms(3,4) show ?thesis
    by (simp add: amoDispatch_keeps)
qed

lemma amoRuleLoop_returns:
  assumes "js_String leadId = Some s" "getProp ld ''pipeline_id'' \<noteq> None"
  shows "fst (amoRuleLoop e u leadId ld cds pl rs w) = None"
proof (induction rs arbitrary: w)
  case Nil
  show ?case by simp
next
  case (Cons r rs)
  from amoRuleStep_returns[OF assms, of e u cds pl r w]
  obtain w' where "amoRuleStep e u leadId ld cds pl r w = (None, w')"
    by (cases "amoRuleStep e u leadId ld cds pl r w") simp
  then show ?case using Cons by simp
qed

lemma amoRuleLoop_Cons:
  assumes "js_String leadId = Some s" "getProp ld ''pipeline_id'' \<noteq> None"
  shows "snd (amoRuleLoop e u leadId ld cds pl (r # rs) w)
       = snd (amoRuleLoop e u leadId ld cds pl rs (snd (amoRuleStep e u leadId ld cds pl r w)))"
proof -
  from amoRuleStep_returns[OF assms, of e u cds pl r w]
  obtain w' where "amoRuleStep e u leadId ld cds pl r w = (None, w')"
    by (cases "amoRuleStep e u leadId ld cds pl r w") simp
  then show ?thesis by simp
qed

lemma amoRuleLoop_append:
  assumes "js_String leadId = Some s" "getProp ld ''pipeline_id'' \<noteq> None"
  shows "snd (amoRuleLoop e u leadId ld cds pl (rs @ rs') w)
       = snd (amoRuleLoop e u leadId ld cds pl rs' (snd (amoRuleLoop e u leadId ld cds pl rs w)))"
proof (induction rs arbitrary: w)
  case Nil
  show ?case by simp
next
  case (Cons r rs)
  show ?case
    using Cons[of "snd (amoRuleStep e u leadId ld cds pl r w)"]
    by (simp only: append_Cons amoRuleLoop_Cons[OF assms])
qed

lemma amoRuleLoop_fields:
  assumes "js_String leadId = Some s" "getProp ld ''pipeline_id'' \<noteq> None"
  shows "clock (snd (amoRuleLoop e u leadId ld cds pl rs w)) = clock w
       \<and> redisUp (snd (amoRuleLoop e u leadId ld cds pl rs w)) = redisUp w"
proof (induction rs arbitrary: w)
  case Nil
  show ?case by simp
next
  case (Cons r rs)
  show ?case
    using Cons[of "snd (amoRuleStep e u leadId ld cds pl r w)"]
      amoRuleStep_fields[OF assms, of e u cds pl r w]
    by (simp only: amoRuleLoop_Cons[OF assms])
qed

lemma amoRuleLoop_keeps:
  assumes "js_String leadId = Some s" "getProp ld ''pipeline_id'' \<noteq> None"
  shows "markedUntil w k t \<Longrightarrow> t \<le> clock w + WEBHOOK_DEDUP_TTL \<Longrightarrow>
   markedUntil (snd (amoRuleLoop e u leadId ld cds pl rs w)) k t"
proof (induction rs arbitrary: w)
  case Nil
  then show ?case by simp
next
  case (Cons r rs)
  let ?w' = "snd (amoRuleStep e u leadId ld cds pl r w)"
  have "markedUntil ?w' k t" using amoRuleStep_keeps[OF assms Cons.prems] .
  moreover have "t \<le> clock ?w' + WEBHOOK_DEDUP_TTL"
    using Cons.prems(2) amoRuleStep_fields[OF assms, of e u cds pl r w] by simp
  ultimately have "markedUntil (snd (amoRuleLoop e u leadId ld cds pl rs ?w')) k t"
    by (rule Cons.IH)
  then show ?case by (simp only: amoRuleLoop_Cons[OF assms])
qed

section \<open>The deduplication key and its time to live\<close>

lemma show_int_small:
  "show_int 7 = ''7''" "show_int 8 = ''8''" "show_int 42 = ''42''" "show_int 142 = ''142''"
  "show_int 5 = ''5''" "show_int 0 = ''0''"
  by (simp_all add: show_int_def show_nat_step show_nat_digit digit_char_def)

lemma generateWebhookKey_eq:
  "generateWebhookKey u l rid ts =
     (if truthy ts
      then map_option (\<lambda>t. ''webhook:'' @ u @ '':'' @ l @ '':'' @ show_int rid @ '':'' @ t) (js_String ts)
      else Some (''webhook:'' @ u @ '':'' @ l @ '':'' @ show_int rid @ '':default''))"
  by (cases "js_String ts") (simp_all add: generateWebhookKey_def js_or_def)

lemma redis_lookup_setex:
  "redis_lookup ((redis_setex k ttl v w)\<lparr>clock := t\<rparr>) k = (if t < clock w + ttl then Some v else None)"
  using map_of_setex[of k ttl v w k] by (simp add: redis_lookup_def redis_setex_def)

lemma mark_stores:
  assumes "generateWebhookKey u l rid ts = Some key" "redisUp w"
  shows "\<exists>w'. markWebhookProcessedInRedis u l rid ts w = Some w'
     \<and> map_of (redisStore w') (''crm:'' @ key) = Some (dedupMarker w, clock w + 600)
     \<and> (\<forall>t. cache_exists (w'\<lparr>clock := t\<rparr>) key = (t < clock w + 600))"
proof -
  let ?w' = "redis_setex (''crm:'' @ key) 600 (dedupMarker w) w"
  have m: "markWebhookProcessedInRedis u l rid ts w = Some ?w'"
    using assms by (simp add: markWebhookProcessedInRedis_def setWithTTL_def dedupMarker_def
        WEBHOOK_DEDUP_TTL_def)
  have s: "map_of (redisStore ?w') (''crm:'' @ key) = Some (dedupMarker w, clock w + 600)"
    using map_of_setex[of "''crm:'' @ key" 600 "dedupMarker w" w "''crm:'' @ key"] by simp
  have up: "\<And>t. redisUp (?w'\<lparr>clock := t\<rparr>)" using assms(2) by (simp add: redis_setex_def)
  have c: "\<forall>t. cache_exists (?w'\<lparr>clock := t\<rparr>) key = (t < clock w + 600)"
    using up redis_lookup_setex[where k = "''crm:'' @ key" and ttl = 600 and v = "dedupMarker w" and w = w]
    by (simp add: cache_exists_def del: append.simps)
  from m s c show ?thesis by blast
qed

text \<open>
  Claim C8, as the code has it. The key of \<open>generateWebhookKey\<close> is
  \<open>webhook:{userId}:{externalId}:{ruleId}:{timestamp}\<close>, whose last component is the
  token \<open>default\<close> whenever the timestamp is falsy (\<open>undefined\<close>, \<open>null\<close>, \<open>0\<close>, the empty
  string, \<open>false\<close>) and the timestamp converted to a string otherwise. The check reads
  this key and the mark writes it, through the cache (Redis key \<open>crm:\<close> followed by the
  key), and the marker lives for 600 seconds.
\<close>

theorem dedup_key_and_ttl:
  "generateWebhookKey u l rid ts =
     (if truthy ts
      then map_option (\<lambda>t. ''webhook:'' @ u @ '':'' @ l @ '':'' @ show_int rid @ '':'' @ t) (js_String ts)
      else Some (''webhook:'' @ u @ '':'' @ l @ '':'' @ show_int rid @ '':default''))
   \<and> isWebhookAlreadyProcessed w u l rid ts = map_option (cache_exists w) (generateWebhookKey u l rid ts)
   \<and> (generateWebhookKey u l rid ts = Some key \<and> redisUp w \<longrightarrow>
        (\<exists>w'. markWebhookProcessedInRedis u l rid ts w = Some w'
           \<and> map_of (redisStore w') (''crm:'' @ key) = Some (dedupMarker w, clock w + 600)
           \<and> (\<forall>t. cache_exists (w'\<lparr>clock := t\<rparr>) key = (t < clock w + 600))))
   \<and> WEBHOOK_DEDUP_TTL = 600"
proof -
  have "isWebhookAlreadyProcessed w u l rid ts = map_option (cache_exists w) (generateWebhookKey u l rid ts)"
    by (cases "generateWebhookKey u l rid ts") (simp_all add: isWebhookAlreadyProcessed_def)
  then show ?thesis
    using generateWebhookKey_eq[of u l rid ts] mark_stores[of u l rid ts key w]
    by (simp add: WEBHOOK_DEDUP_TTL_def)
qed

theorem dedup_key_and_ttl_witness:
  "generateWebhookKey ''u1'' ''42'' 7 (JNum 1700000000) = Some ''webhook:u1:42:7:1700000000''
   \<and> generateWebhookKey ''u1'' ''42'' 7 JUndef = Some ''webhook:u1:42:7:default''
   \<and> (\<exists>w'. markWebhookProcessedInRedis ''u1'' ''42'' 7 JUndef world0 = Some w'
         \<and> map_of (redisStore w') ''crm:webhook:u1:42:7:default'' = Some (dedupMarker world0, 1600)
         \<and> cache_exists (w'\<lparr>clock := 1599\<rparr>) ''webhook:u1:42:7:default''
         \<and> \<not> cache_exists (w'\<lparr>clock := 1600\<rparr>) ''webhook:u1:42:7:default'')"
proof -
  have n: "show_int 1700000000 = ''1700000000''"
    by (simp add: show_int_def show_nat_step show_nat_digit digit_char_def)
  have a: "generateWebhookKey ''u1'' ''42'' 7 (JNum 1700000000) = Some ''webhook:u1:42:7:1700000000''"
    using dedup_key_and_ttl[of "''u1''" "''42''" 7 "JNum 1700000000" world0 "''x''"]
    by (simp add: show_int_small n)
  have b: "generateWebhookKey ''u1'' ''42'' 7 JUndef = Some ''webhook:u1:42:7:default''"
    using dedup_key_and_ttl[of "''u1''" "''42''" 7 JUndef world0 "''x''"]
    by (simp add: show_int_small)
  have up: "redisUp world0" "clock world0 = 1000" by (simp_all add: world0_def)
  have "generateWebhookKey ''u1'' ''42'' 7 JUndef = Some ''webhook:u1:42:7:default'' \<and> redisUp world0 \<longrightarrow>
        (\<exists>w'. markWebhookProcessedInRedis ''u1'' ''42'' 7 JUndef world0 = Some w'
           \<and> map_of (redisStore w') (''crm:'' @ ''webhook:u1:42:7:default'')
               = Some (dedupMarker world0, clock world0 + 600)
           \<and> (\<forall>t. cache_exists (w'\<lparr>clock := t\<rparr>) ''webhook:u1:42:7:default''
                 = (t < clock world0 + 600)))"
    by (rule dedup_key_and_ttl[of "''u1''" "''42''" 7 JUndef world0 "''webhook:u1:42:7:default''",
          THEN conjunct2, THEN conjunct2, THEN conjunct1])
  with b up obtain w' where w': "markWebhookProcessedInRedis ''u1'' ''42'' 7 JUndef world0 = Some w'"
     "map_of (redisStore w') (''crm:'' @ ''webhook:u1:42:7:default'') = Some (dedupMarker world0, 1000 + 600)"
     "\<forall>t. cache_exists (w'\<lparr>clock := t\<rparr>) ''webhook:u1:42:7:default'' = (t < 1000 + 600)"
    by auto
  from w'(3) have "cache_exists (w'\<lparr>clock := 1599\<rparr>) ''webhook:u1:42:7:default''"
    "\<not> cache_exists (w'\<lparr>clock := 1600\<rparr>) ''webhook:u1:42:7:default''"
    by simp_all
  with a b w'(1,2) show ?thesis by simp
qed

text \<open>
  Claim C8 as stated fails: the event carries the action timestamp \<open>0\<close>, and the key
  ends in \<open>default\<close> all the same, since \<open>0 || 'default'\<close> is \<open>'default'\<close>.
\<close>

theorem dedup_key_zero_timestamp_counterexample:
  "generateWebhookKey ''u1'' ''42'' 7 (JNum 0) = Some ''webhook:u1:42:7:default''
   \<and> generateWebhookKey ''u1'' ''42'' 7 (JNum 0) \<noteq> Some ''webhook:u1:42:7:0''"
  by (simp add: generateWebhookKey_def js_or_def show_int_small)

section \<open>Isolation of rules\<close>

lemma amoRuleStep_returns_any:
  "js_String leadId = Some s \<Longrightarrow> fst (amoRuleStep e u leadId ld cds pl r w) = None"
  by (cases "amoRuleAttempt e u leadId ld cds pl r w")
     (simp add: amoRuleStep_def split: option.splits)

lemma amoRuleStep_caught:
  "js_String leadId = Some s \<Longrightarrow> fst (amoRuleAttempt e u leadId ld cds pl r w) = Some x \<Longrightarrow>
   amoRuleStep e u leadId ld cds pl r w =
     (None, logAt LError (JStr u) (AmoRuleError (ruleId r) x)
              (snd (amoRuleAttempt e u leadId ld cds pl r w)))"
  by (cases "amoRuleAttempt e u leadId ld cds pl r w") (simp add: amoRuleStep_def)

lemma amoRuleLoop_step:
  assumes "js_String leadId = Some s"
  shows "amoRuleLoop e u leadId ld cds pl (r # rs) w
       = amoRuleLoop e u leadId ld cds pl rs (snd (amoRuleStep e u leadId ld cds pl r w))"
proof -
  from amoRuleStep_returns_any[OF assms, of e u ld cds pl r w]
  obtain w' where "amoRuleStep e u leadId ld cds pl r w = (None, w')"
    by (cases "amoRuleStep e u leadId ld cds pl r w") simp
  then show ?thesis by simp
qed

lemma amoRuleLoop_split:
  assumes "js_String leadId = Some s"
  shows "amoRuleLoop e u leadId ld cds pl (rs @ rs') w
       = amoRuleLoop e u leadId ld cds pl rs' (snd (amoRuleLoop e u leadId ld cds pl rs w))"
proof (induction rs arbitrary: w)
  case Nil
  show ?case by simp
next
  case (Cons r rs)
  show ?case
    using Cons[of "snd (amoRuleStep e u leadId ld cds pl r w)"]
    by (simp only: append_Cons amoRuleLoop_step[OF assms])
qed

lemma amoRuleLoop_never_throws:
  assumes "js_String leadId = Some s"
  shows "fst (amoRuleLoop e u leadId ld cds pl rs w) = None"
proof (induction rs arbitrary: w)
  case Nil
  show ?case by simp
next
  case (Cons r rs)
  show ?case using Cons by (simp only: amoRuleLoop_step[OF assms])
qed

lemma lpRuleStep_caught:
  "fst (lpRuleAttempt e u wd r w) = Some x \<Longrightarrow>
   lpRuleStep e u wd r w = logAt LError (JStr u) (LpRuleError (ruleId r) x) (snd (lpRuleAttempt e u wd r w))"
  by (cases "lpRuleAttempt e u wd r w") (simp add: lpRuleStep_def)

lemma runAction_caught:
  "fst (actionAttempt e ev uid a w) = Some x \<Longrightarrow> actionTypeText a \<noteq> None \<Longrightarrow>
   runAction e ev uid a w = (None, logAt LError uid (ActionError x) (snd (actionAttempt e ev uid a w)))"
  by (cases "actionAttempt e ev uid a w") (auto simp add: runAction_def)

section \<open>Facts for concrete evaluations\<close>

lemma dedupMarker_clock: "clock w' = clock w \<Longrightarrow> dedupMarker w' = dedupMarker w"
  by (simp add: dedupMarker_def)

lemma lpDispatch_store:
  "redisStore (lpDispatch e u wd r key w)
     = redisStore (setWithTTL key (dedupMarker w) WEBHOOK_DEDUP_TTL w)"
proof -
  let ?w2 = "snd (executeActions e (actions r) (lpEventEntries u wd)
                     (logAt LInfo (JStr u) (LpRuleApplicable (ruleId r)) w))"
  have f: "clock ?w2 = clock w" "redisUp ?w2 = redisUp w" "redisStore ?w2 = redisStore w"
    by (simp_all add: executeActions_fields)
  have "redisStore (setWithTTL key (dedupMarker ?w2) WEBHOOK_DEDUP_TTL ?w2)
      = redisStore (setWithTTL key (dedupMarker w) WEBHOOK_DEDUP_TTL w)"
    using f dedupMarker_clock[OF f(1)] by (simp add: setWithTTL_def redis_setex_def)
  then show ?thesis by (simp add: lpDispatch_def Let_def split: option.splits)
qed

lemma amoDispatch_store:
  "redisStore (amoDispatch e u ev r key w)
     = redisStore (setWithTTL key (dedupMarker w) WEBHOOK_DEDUP_TTL w)"
proof -
  let ?w3 = "snd (executeActions e (actions r) ev
               (logAt LInfo (JStr u) (AmoRuleMatches (ruleId r))
                 (logAt LInfo (JStr u) (AmoCheckRule (ruleId r)) w)))"
  have f: "clock ?w3 = clock w" "redisUp ?w3 = redisUp w" "redisStore ?w3 = redisStore w"
    by (simp_all add: executeActions_fields)
  have "redisStore (setWithTTL key (dedupMarker ?w3) WEBHOOK_DEDUP_TTL ?w3)
      = redisStore (setWithTTL key (dedupMarker w) WEBHOOK_DEDUP_TTL w)"
    using f dedupMarker_clock[OF f(1)] by (simp add: setWithTTL_def redis_setex_def)
  then show ?thesis by (simp add: amoDispatch_def Let_def split: option.splits)
qed

lemma cache_exists_cong:
  "clock w' = clock w \<Longrightarrow> redisUp w' = redisUp w \<Longrightarrow> redisStore w' = redisStore w \<Longrightarrow>
   cache_exists w' k = cache_exists w k"
  by (simp add: cache_exists_def redis_lookup_def split: option.splits)

lemma cache_exists_setWithTTL_other:
  "k \<noteq> key \<Longrightarrow> cache_exists (setWithTTL key v ttl w) k = cache_exists w k"
proof -
  assume "k \<noteq> key"
  then have m: "map_of (redisStore (redis_setex (''crm:'' @ key) ttl v w)) (''crm:'' @ k)
      = map_of (redisStore w) (''crm:'' @ k)"
    using map_of_setex[of "''crm:'' @ key" ttl v w "''crm:'' @ k"] by simp
  have c: "clock (redis_setex (''crm:'' @ key) ttl v w) = clock w"
    "redisUp (redis_setex (''crm:'' @ key) ttl v w) = redisUp w"
    by (simp_all add: redis_setex_def)
  show ?thesis
    using m c
    by (simp add: cache_exists_def redis_lookup_def setWithTTL_def split: option.splits
        del: append.simps)
qed

lemma lpDispatch_other:
  "k \<noteq> key \<Longrightarrow> cache_exists (lpDispatch e u wd r key w) k = cache_exists w k"
  using cache_exists_cong[of "lpDispatch e u wd r key w"
      "setWithTTL key (dedupMarker w) WEBHOOK_DEDUP_TTL w" k]
    cache_exists_setWithTTL_other[of k key "dedupMarker w" WEBHOOK_DEDUP_TTL w]
  by (simp add: lpDispatch_fields lpDispatch_store)

lemma amoDispatch_other:
  "k \<noteq> key \<Longrightarrow> cache_exists (amoDispatch e u ev r key w) k = cache_exists w k"
  using cache_exists_cong[of "amoDispatch e u ev r key w"
      "setWithTTL key (dedupMarker w) WEBHOOK_DEDUP_TTL w" k]
    cache_exists_setWithTTL_other[of k key "dedupMarker w" WEBHOOK_DEDUP_TTL w]
  by (simp add: amoDispatch_fields amoDispatch_store)

lemma lpRuleAttempt_dispatch_fst:
  assumes "lpDispatches e u wd r w"
  shows "fst (lpRuleAttempt e u wd r w) = incrementFails e (ruleId r)"
proof -
  from assms obtain key where k: "lpDedupKey u wd r = Some key" "\<not> cache_exists w key"
    by (auto simp add: lpDispatches_def)
  from k(1) obtain i leadId where i: "getProp wd ''id'' = Some i" "js_String i = Some leadId"
    "generateWebhookKey u leadId (ruleId r)
       (case getProp wd ''action_timestamp'' of Some t \<Rightarrow> t | None \<Rightarrow> JUndef) = Some key"
    by (auto simp add: lpDedupKey_def split: option.splits Option.bind_splits)
  have ex: "executeActions e (actions r) (setEntry ''userId'' (JStr u) (spreadEntries wd))
        (logAt LInfo (JStr u) (LpRuleApplicable (ruleId r)) w)
      = (None, snd (executeActions e (actions r) (setEntry ''userId'' (JStr u) (spreadEntries wd))
        (logAt LInfo (JStr u) (LpRuleApplicable (ruleId r)) w)))"
    by (rule executeActions_eq)
  from assms k i show ?thesis
    apply (simp add: lpDispatches_def lpRuleAttempt_def isWebhookAlreadyProcessed_def Let_def)
    apply (subst ex)
    apply (simp add: markWebhookProcessedInRedis_def incrementRuleExecution_def split: option.splits)
    done
qed

lemma amoRuleAttempt_dispatch_fst:
  assumes "amoDispatches e u leadId ld cds pl r w" "getProp ld ''pipeline_id'' \<noteq> None"
  shows "fst (amoRuleAttempt e u leadId ld cds pl r w) = incrementFails e (ruleId r)"
proof -
  from assms(1) obtain key where k: "amoDedupKey u leadId r = Some key" "\<not> cache_exists w key"
    by (auto simp add: amoDispatches_def)
  from amoDedupKey_Some[OF k(1)] obtain s where
    s: "js_String leadId = Some s" "generateWebhookKey u s (ruleId r) JUndef = Some key" by blast
  from assms(2) obtain p where p: "getProp ld ''pipeline_id'' = Some p" by blast
  let ?ev = "amoEventEntries u leadId ld cds pl"
  let ?w2 = "logAt LInfo (JStr u) (AmoRuleMatches (ruleId r))
                 (logAt LInfo (JStr u) (AmoCheckRule (ruleId r)) w)"
  have ex: "executeActions e (actions r) ?ev ?w2 = (None, snd (executeActions e (actions r) ?ev ?w2))"
    by (rule executeActions_eq)
  from assms(1) k s p show ?thesis
    apply (simp add: amoDispatches_def amoRuleAttempt_def isWebhookAlreadyProcessed_def Let_def)
    apply (subst ex)
    apply (simp add: markWebhookProcessedInRedis_def incrementRuleExecution_def split: option.splits)
    done
qed

text \<open>Facts about the concrete instances.\<close>

lemma cc_rule78:
  "checkConditions exampleRuntime (conditions rule7) stage142"
  "checkConditions exampleRuntime (conditions rule8) stage142"
  by (simp_all add: rule7_def rule8_def cc_array status_eval)

lemma status_eval_amo:
  "evalCondition exampleRuntime (JObj (amoEventEntries u leadId lead142 cds pl)) (statusIs v)
     = Some (JBool (''142'' = v))"
  by (simp add: evalCondition_def statusIs_def amoEventEntries_def lead142_def optChain_def
      nullish_def sameString_def show_int_small)

lemma cc_rule78_amo:
  "checkConditions exampleRuntime (conditions rule7) (JObj (amoEventEntries u leadId lead142 cds pl))"
  "checkConditions exampleRuntime (conditions rule8) (JObj (amoEventEntries u leadId lead142 cds pl))"
  by (simp_all add: rule7_def rule8_def cc_array status_eval_amo)

lemma keys_rule78:
  "lpDedupKey ''u1'' stage142 rule7 = Some ''webhook:u1:42:7:default''"
  "lpDedupKey ''u1'' stage142 rule8 = Some ''webhook:u1:42:8:default''"
  "amoDedupKey ''u1'' (JStr ''77'') rule7 = Some ''webhook:u1:77:7:default''"
  "amoDedupKey ''u1'' (JStr ''77'') rule8 = Some ''webhook:u1:77:8:default''"
  by (simp_all add: lpDedupKey_def amoDedupKey_def stage142_def rule7_def rule8_def
      generateWebhookKey_def js_or_def show_int_small)

lemma relevant_rule78:
  "isWebhookRelevant stage142 rule7 = Some True" "isWebhookRelevant stage142 rule8 = Some True"
  by (simp_all add: isWebhookRelevant_def stage142_def)

lemma world0_fields:
  "redisUp world0" "clock world0 = 1000" "\<not> cache_exists world0 k" "execCount world0 rid = 0"
  by (simp_all add: world0_def cache_exists_def redis_lookup_def)

lemma env_fields:
  "rt brokenEnv = exampleRuntime" "rt flakyEnv = exampleRuntime"
  "incrementFails brokenEnv rid = None" "syncFails brokenEnv c = Some (Failure ''adapter down'')"
  "incrementFails flakyEnv 7 = Some (Failure ''db'')" "incrementFails flakyEnv 8 = None"
  by (simp_all add: brokenEnv_def flakyEnv_def)

lemma rule_ids: "ruleId rule7 = 7" "ruleId rule8 = 8"
  by (simp_all add: rule7_def rule8_def)

lemma lead142_pipeline: "getProp lead142 ''pipeline_id'' \<noteq> None"
  by (simp add: lead142_def)

lemma lpDispatch_execCount:
  "execCount (lpDispatch e u wd r key w) =
     (case incrementFails e (ruleId r) of
        None \<Rightarrow> (execCount w)(ruleId r := Suc (execCount w (ruleId r)))
      | Some x \<Rightarrow> execCount w)"
  by (simp add: lpDispatch_def Let_def executeActions_fields split: option.splits)

lemma amoDispatch_execCount:
  "execCount (amoDispatch e u ev r key w) =
     (case incrementFails e (ruleId r) of
        None \<Rightarrow> (execCount w)(ruleId r := Suc (execCount w (ruleId r)))
      | Some x \<Rightarrow> execCount w)"
  by (simp add: amoDispatch_def Let_def executeActions_fields split: option.splits)

lemma disp_lp_world0:
  "lpDispatches brokenEnv ''u1'' stage142 rule7 world0"
  "lpDispatches flakyEnv ''u1'' stage142 rule7 world0"
  by (simp_all add: lpDispatches_def env_fields cc_rule78 keys_rule78 relevant_rule78 world0_fields)

lemma disp_amo_world0:
  "amoDispatches brokenEnv ''u1'' (JStr ''77'') lead142 [] (JObj []) rule7 world0"
  "amoDispatches flakyEnv ''u1'' (JStr ''77'') lead142 [] (JObj []) rule7 world0"
  by (simp_all add: amoDispatches_def env_fields cc_rule78_amo keys_rule78 world0_fields)

lemma amo_step_world0:
  "snd (amoRuleStep e ''u1'' (JStr ''77'') lead142 [] (JObj []) rule7 world0) =
     (if checkConditions (rt e) (conditions rule7)
           (JObj (amoEventEntries ''u1'' (JStr ''77'') lead142 [] (JObj [])))
      then amoDispatch e ''u1'' (amoEventEntries ''u1'' (JStr ''77'') lead142 [] (JObj [])) rule7
             ''webhook:u1:77:7:default'' world0
      else logAt LInfo (JStr ''u1'') (AmoRuleNoMatch (ruleId rule7))
             (logAt LInfo (JStr ''u1'') (AmoCheckRule (ruleId rule7)) world0))"
  using amoRuleStep_cases[OF keys_rule78(3) lead142_pipeline, of e "[]" "JObj []" world0]
  by (simp add: world0_fields)

lemma amoRuleLoop_single:
  assumes "js_String leadId = Some s"
  shows "snd (amoRuleLoop e u leadId ld cds pl [r] w) = snd (amoRuleStep e u leadId ld cds pl r w)"
  by (subst amoRuleLoop_step[OF assms]) simp

section \<open>Marking and counting do not depend on the adapters\<close>

lemma lpDispatch_syncCalls:
  "syncCalls (lpDispatch e u wd r key w)
     = syncCalls (snd (executeActions e (actions r) (lpEventEntries u wd)
                        (logAt LInfo (JStr u) (LpRuleApplicable (ruleId r)) w)))"
  by (simp add: lpDispatch_def Let_def split: option.splits)

lemma executeActions_syncToAmo:
  assumes "buildSyncRecord (rt e) (JObj [(''type'', JStr ''sync_to_amocrm'')]) (JObj entries) = Some sr"
  shows "syncCalls (snd (executeActions e syncToAmo entries w))
     = syncCalls w @ [(AmoCrm, (case map_of entries ''userId'' of Some x \<Rightarrow> x | None \<Rightarrow> JUndef),
                       sr, JStr ''phone'')]"
  using assms
  by (cases "syncFails e (AmoCrm, (case map_of entries ''userId'' of Some x \<Rightarrow> x | None \<Rightarrow> JUndef),
                       sr, JStr ''phone'')")
     (simp_all add: executeActions_def syncToAmo_def js_iter_def runAction_def actionAttempt_def
       actionTypeText_def callAdapter_def Let_def js_or_def)

lemma lpEvent_stage142:
  "lpEventEntries ''u1'' stage142 = [(''project_id'', JNum 5), (''id'', JNum 42),
             (''stage_id'', JNum 142), (''userId'', JStr ''u1'')]"
  by (simp add: lpEventEntries_def stage142_def spreadEntries_def setEntry_def)

lemma build_stage142:
  "buildSyncRecord exampleRuntime (JObj [(''type'', JStr ''sync_to_amocrm'')])
      (JObj (lpEventEntries ''u1'' stage142)) \<noteq> None"
  by (simp add: lpEvent_stage142 buildSyncRecord_def firstContact_def optChain_def nullish_def
      orElse_def optField_def extractPhoneFromLpTrackerContact_def extractFromContact_def
      optionalSetting_def js_or_def)

lemma rule_fields:
  "actions rule7 = syncToAmo" "actions rule8 = syncToAmo" "syncCalls world0 = []"
  by (simp_all add: rule7_def rule8_def world0_def)

text \<open>
  Claim C9. For a rule that passes the condition, dedup and relevance checks, whatever
  the adapters do (\<open>syncFails e\<close> is arbitrary: every call may fail), \<open>executeActions\<close>
  returns without an exception; the key is then marked for 600 seconds when Redis
  answers, and the execution counter is incremented when the store's increment does not
  fail. The first conjunct is the LPTracker loop, the second the AmoCRM loop.
\<close>

theorem mark_and_count_despite_failures:
  "(lpDispatches e u wd r w \<and> lpDedupKey u wd r = Some key
    \<longrightarrow> fst (executeActions e (actions r) (lpEventEntries u wd)
               (logAt LInfo (JStr u) (LpRuleApplicable (ruleId r)) w)) = None
        \<and> lpRuleStep e u wd r w = lpDispatch e u wd r key w
        \<and> (redisUp w \<longrightarrow> cache_exists (lpRuleStep e u wd r w) key
              \<and> markedUntil (lpRuleStep e u wd r w) key (clock w + WEBHOOK_DEDUP_TTL))
        \<and> (incrementFails e (ruleId r) = None
              \<longrightarrow> execCount (lpRuleStep e u wd r w) (ruleId r) = Suc (execCount w (ruleId r))))
   \<and> (amoDispatches e u leadId ld cds pl r w \<and> amoDedupKey u leadId r = Some akey
        \<and> getProp ld ''pipeline_id'' \<noteq> None
    \<longrightarrow> fst (executeActions e (actions r) (amoEventEntries u leadId ld cds pl)
               (logAt LInfo (JStr u) (AmoRuleMatches (ruleId r))
                 (logAt LInfo (JStr u) (AmoCheckRule (ruleId r)) w))) = None
        \<and> amoRuleStep e u leadId ld cds pl r w
            = (None, amoDispatch e u (amoEventEntries u leadId ld cds pl) r akey w)
        \<and> (redisUp w \<longrightarrow> cache_exists (snd (amoRuleStep e u leadId ld cds pl r w)) akey
              \<and> markedUntil (snd (amoRuleStep e u leadId ld cds pl r w)) akey
                   (clock w + WEBHOOK_DEDUP_TTL))
        \<and> (incrementFails e (ruleId r) = None
              \<longrightarrow> execCount (snd (amoRuleStep e u leadId ld cds pl r w)) (ruleId r)
                    = Suc (execCount w (ruleId r))))"
proof (intro conjI impI)
  assume a: "lpDispatches e u wd r w \<and> lpDedupKey u wd r = Some key"
  then have st: "lpRuleStep e u wd r w = lpDispatch e u wd r key w"
    using lpRuleStep_dispatch by blast
  show "fst (executeActions e (actions r) (lpEventEntries u wd)
               (logAt LInfo (JStr u) (LpRuleApplicable (ruleId r)) w)) = None"
    by (rule executeActions_returns)
  show "lpRuleStep e u wd r w = lpDispatch e u wd r key w" by (rule st)
  show "execCount (lpRuleStep e u wd r w) (ruleId r) = Suc (execCount w (ruleId r))"
    if "incrementFails e (ruleId r) = None"
    using that by (simp add: st lpDispatch_counts)
  show "markedUntil (lpRuleStep e u wd r w) key (clock w + WEBHOOK_DEDUP_TTL)" if "redisUp w"
    using that by (simp add: st lpDispatch_marks)
  show "cache_exists (lpRuleStep e u wd r w) key" if "redisUp w"
    using that markedUntil_mono[OF lpDispatch_marks[OF that, of e u wd r key], of "Suc (clock w)"]
    by (simp add: st cache_exists_marked lpDispatch_fields WEBHOOK_DEDUP_TTL_def)
next
  assume a: "amoDispatches e u leadId ld cds pl r w \<and> amoDedupKey u leadId r = Some akey
        \<and> getProp ld ''pipeline_id'' \<noteq> None"
  then have st: "amoRuleStep e u leadId ld cds pl r w
            = (None, amoDispatch e u (amoEventEntries u leadId ld cds pl) r akey w)"
    using amoRuleStep_cases[of u leadId r akey ld e cds pl w] by (auto simp add: amoDispatches_def)
  show "fst (executeActions e (actions r) (amoEventEntries u leadId ld cds pl)
               (logAt LInfo (JStr u) (AmoRuleMatches (ruleId r))
                 (logAt LInfo (JStr u) (AmoCheckRule (ruleId r)) w))) = None"
    by (rule executeActions_returns)
  show "amoRuleStep e u leadId ld cds pl r w
            = (None, amoDispatch e u (amoEventEntries u leadId ld cds pl) r akey w)" by (rule st)
  show "execCount (snd (amoRuleStep e u leadId ld cds pl r w)) (ruleId r)
                    = Suc (execCount w (ruleId r))"
    if "incrementFails e (ruleId r) = None"
    using that by (simp add: st amoDispatch_counts)
  show "markedUntil (snd (amoRuleStep e u leadId ld cds pl r w)) akey (clock w + WEBHOOK_DEDUP_TTL)"
    if "redisUp w"
    using that by (simp add: st amoDispatch_marks)
  show "cache_exists (snd (amoRuleStep e u leadId ld cds pl r w)) akey" if "redisUp w"
    using that markedUntil_mono[OF amoDispatch_marks[OF that, of e u _ r akey], of "Suc (clock w)"]
    by (simp add: st cache_exists_marked amoDispatch_fields WEBHOOK_DEDUP_TTL_def)
qed

text \<open>
  With adapters that always fail: the one adapter call of rule 7 is made and fails, the
  key is marked and the counter goes from 0 to 1, in both loops.
\<close>

theorem mark_and_count_despite_failures_witness:
  "(\<forall>c. syncFails brokenEnv c = Some (Failure ''adapter down''))
   \<and> length (syncCalls (lpRuleStep brokenEnv ''u1'' stage142 rule7 world0)) = 1
   \<and> cache_exists (lpRuleStep brokenEnv ''u1'' stage142 rule7 world0) ''webhook:u1:42:7:default''
   \<and> execCount world0 7 = 0
   \<and> execCount (lpRuleStep brokenEnv ''u1'' stage142 rule7 world0) 7 = 1
   \<and> cache_exists (snd (amoRuleStep brokenEnv ''u1'' (JStr ''77'') lead142 [] (JObj []) rule7 world0))
        ''webhook:u1:77:7:default''
   \<and> execCount (snd (amoRuleStep brokenEnv ''u1'' (JStr ''77'') lead142 [] (JObj []) rule7 world0)) 7 = 1"
proof -
  note lp = mark_and_count_despite_failures[where e = brokenEnv and u = "''u1''" and wd = stage142
      and r = rule7 and w = world0 and key = "''webhook:u1:42:7:default''", THEN conjunct1, rule_format]
  note amo = mark_and_count_despite_failures[where e = brokenEnv and u = "''u1''"
      and leadId = "JStr ''77''" and ld = lead142 and cds = "[]" and pl = "JObj []"
      and r = rule7 and w = world0 and akey = "''webhook:u1:77:7:default''", THEN conjunct2, rule_format]
  have h1: "lpDispatches brokenEnv ''u1'' stage142 rule7 world0
      \<and> lpDedupKey ''u1'' stage142 rule7 = Some ''webhook:u1:42:7:default''"
    by (simp add: disp_lp_world0 keys_rule78)
  have h2: "amoDispatches brokenEnv ''u1'' (JStr ''77'') lead142 [] (JObj []) rule7 world0
      \<and> amoDedupKey ''u1'' (JStr ''77'') rule7 = Some ''webhook:u1:77:7:default''
      \<and> getProp lead142 ''pipeline_id'' \<noteq> None"
    using lead142_pipeline by (simp add: disp_amo_world0 keys_rule78)
  have st: "lpRuleStep brokenEnv ''u1'' stage142 rule7 world0
      = lpDispatch brokenEnv ''u1'' stage142 rule7 ''webhook:u1:42:7:default'' world0"
    using lp[OF h1] by blast
  obtain sr where sr: "buildSyncRecord (rt brokenEnv) (JObj [(''type'', JStr ''sync_to_amocrm'')])
      (JObj (lpEventEntries ''u1'' stage142)) = Some sr"
    using build_stage142 by (auto simp add: env_fields)
  have calls: "length (syncCalls (lpRuleStep brokenEnv ''u1'' stage142 rule7 world0)) = 1"
    using executeActions_syncToAmo[OF sr,
        of "logAt LInfo (JStr ''u1'') (LpRuleApplicable (ruleId rule7)) world0"]
    by (simp add: st lpDispatch_syncCalls rule_fields)
  have a: "cache_exists (lpRuleStep brokenEnv ''u1'' stage142 rule7 world0) ''webhook:u1:42:7:default''"
    using lp[OF h1] world0_fields(1) by blast
  have b: "execCount (lpRuleStep brokenEnv ''u1'' stage142 rule7 world0) 7 = 1"
    using lp[OF h1] env_fields(3)[of 7] by (auto simp add: rule_ids world0_fields)
  have c: "cache_exists (snd (amoRuleStep brokenEnv ''u1'' (JStr ''77'') lead142 [] (JObj []) rule7 world0))
        ''webhook:u1:77:7:default''"
    using amo[OF h2] world0_fields(1) by blast
  have d: "execCount (snd (amoRuleStep brokenEnv ''u1'' (JStr ''77'') lead142 [] (JObj []) rule7 world0)) 7 = 1"
    using amo[OF h2] env_fields(3)[of 7] by (auto simp add: rule_ids world0_fields)
  show ?thesis using calls a b c d by (simp add: env_fields world0_fields)
qed

section \<open>Failure of the lead fetch\<close>

lemma amo_swallow:
  assumes "payload \<noteq> JUndef"
    and "getProp payload ''account[subdomain]'' = Some subdomain" and "truthy subdomain"
    and "findUserBySubdomain e subdomain = Some userId" and "userId \<noteq> []"
    and "truthy (extractLeadId payload)" and "js_String (extractLeadId payload) = Some s"
    and "getLeadDetails e userId (extractLeadId payload) = Inl x"
  shows "processAmoCrmWebhookDirect e payload w
     = (None, logAt LError (JStr userId) (AmoLeadFetchError x) (logAt LInfo JUndef AmoStart w))"
  using assms
  by (simp add: processAmoCrmWebhookDirect_def amoProcessAttempt_def amoEnrichAttempt_def Let_def)

text \<open>
  Claim C3, as the code has it. When the owner and the lead id of an AmoCRM webhook are
  resolved and the fetch of the lead's details fails, \<open>processAmoCrmWebhookDirect\<close> logs
  the error and returns normally: nothing but two log entries changes (no rule is
  evaluated), no exception reaches the queue, and the job completes without a retry.
\<close>

theorem enrichment_failure_is_logged_not_thrown:
  assumes "payload \<noteq> JUndef"
    and "getProp payload ''account[subdomain]'' = Some subdomain" and "truthy subdomain"
    and "findUserBySubdomain e subdomain = Some userId" and "userId \<noteq> []"
    and "truthy (extractLeadId payload)" and "js_String (extractLeadId payload) = Some s"
    and "getLeadDetails e userId (extractLeadId payload) = Inl x"
  shows "processAmoCrmWebhookDirect e payload w
           = (None, logAt LError (JStr userId) (AmoLeadFetchError x) (logAt LInfo JUndef AmoStart w))
       \<and> fst (amocrmWebhookProcessor e payload w) = Completed"
  using amo_swallow[OF assms] by (simp add: amocrmWebhookProcessor_def)

lemma amoPayload_facts:
  "amoPayload \<noteq> JUndef" "getProp amoPayload ''account[subdomain]'' = Some (JStr ''acme'')"
  "extractLeadId amoPayload = JStr ''77''"
  "findUserBySubdomain brokenEnv (JStr ''acme'') = Some ''u1''"
  "getLeadDetails brokenEnv ''u1'' (JStr ''77'') = Inl (Failure ''network'')"
  by (simp_all add: amoPayload_def extractLeadId_def findUserBySubdomain_def brokenEnv_def
      strictEq_def getLeadDetails_def)

theorem enrichment_failure_is_logged_not_thrown_witness:
  "getLeadDetails brokenEnv ''u1'' (JStr ''77'') = Inl (Failure ''network'')
   \<and> processAmoCrmWebhookDirect brokenEnv amoPayload world0
       = (None, logAt LError (JStr ''u1'') (AmoLeadFetchError (Failure ''network''))
                  (logAt LInfo JUndef AmoStart world0))
   \<and> fst (amocrmWebhookProcessor brokenEnv amoPayload world0) = Completed"
  using enrichment_failure_is_logged_not_thrown[of amoPayload "JStr ''acme''" brokenEnv "''u1''"
      "''77''" "Failure ''network''" world0]
  by (simp add: amoPayload_facts)

text \<open>
  Claim C3 as stated fails: the fetch of lead 77 fails, and the processing call returns
  without an exception, so the queue processor completes the job instead of failing it.
\<close>

theorem enrichment_failure_counterexample:
  "getLeadDetails brokenEnv ''u1'' (JStr ''77'') = Inl (Failure ''network'')
   \<and> fst (processAmoCrmWebhookDirect brokenEnv amoPayload world0) = None
   \<and> fst (amocrmWebhookProcessor brokenEnv amoPayload world0) = Completed"
  by (simp add: amoPayload_facts processAmoCrmWebhookDirect_def amoProcessAttempt_def
      amoEnrichAttempt_def amocrmWebhookProcessor_def Let_def)

section \<open>Selection of the rules\<close>

lemma lpRuleStep_ignores_tags:
  "lpRuleStep e u wd (r\<lparr>webhookSource := s, isActive := b\<rparr>) w = lpRuleStep e u wd r w"
proof -
  have f: "ruleId (r\<lparr>webhookSource := s, isActive := b\<rparr>) = ruleId r"
    "conditions (r\<lparr>webhookSource := s, isActive := b\<rparr>) = conditions r"
    "actions (r\<lparr>webhookSource := s, isActive := b\<rparr>) = actions r"
    by simp_all
  show ?thesis unfolding lpRuleStep_def lpRuleAttempt_def isWebhookRelevant_def f by (rule refl)
qed

lemma amoRuleStep_ignores_tags:
  "amoRuleStep e u l ld cds pl (r\<lparr>webhookSource := s, isActive := b\<rparr>) w = amoRuleStep e u l ld cds pl r w"
proof -
  have f: "ruleId (r\<lparr>webhookSource := s, isActive := b\<rparr>) = ruleId r"
    "conditions (r\<lparr>webhookSource := s, isActive := b\<rparr>) = conditions r"
    "actions (r\<lparr>webhookSource := s, isActive := b\<rparr>) = actions r"
    by simp_all
  show ?thesis unfolding amoRuleStep_def amoRuleAttempt_def f by (rule refl)
qed

lemma amoRuleStep_ignores_source:
  "amoRuleStep e u l ld cds pl (r\<lparr>webhookSource := s\<rparr>) w = amoRuleStep e u l ld cds pl r w"
proof -
  have f: "ruleId (r\<lparr>webhookSource := s\<rparr>) = ruleId r"
    "conditions (r\<lparr>webhookSource := s\<rparr>) = conditions r"
    "actions (r\<lparr>webhookSource := s\<rparr>) = actions r"
    by simp_all
  show ?thesis unfolding amoRuleStep_def amoRuleAttempt_def f by (rule refl)
qed

lemma cache_set_fields [simp]:
  "execCount (cache_set k v t w) = execCount w" "syncCalls (cache_set k v t w) = syncCalls w"
  "clock (cache_set k v t w) = clock w" "redisUp (cache_set k v t w) = redisUp w"
  by (simp_all add: cache_set_def redis_setex_def)

lemma dormant_lp_run:
  "processLpTrackerWebhookDirect dormantEnv stage142 world0 =
     (None, lpRuleStep dormantEnv ''u1'' stage142 rule7
        (logAt LInfo (JStr ''u1'') CacheRulesStored
          (cache_set ''sync_rules:u1'' (RulesVal [dormantRule]) RULES_CACHE_TTL
            (logAt LInfo (JStr ''u1'') LpProcessing (logAt LInfo JUndef LpAnalysis world0)))))"
  by (simp add: processLpTrackerWebhookDirect_def lpProcessAttempt_def stage142_def
      findUserByProjectId_def dormantEnv_def brokenEnv_def getCachedSyncRules_def cache_get_def
      world0_def logAt_def redis_lookup_def Let_def show_int_small lpRuleStep_ignores_tags
      dormantRule_def)

lemma dormant_fields:
  "rt dormantEnv = exampleRuntime" "incrementFails dormantEnv rid = None"
  "rt amoEnv = exampleRuntime" "incrementFails amoEnv rid = None"
  "getSyncRules amoEnv u = Inr [amoRule7]"
  "webhookSource dormantRule = ''amocrm''" "\<not> isActive dormantRule"
  "webhookSource amoRule7 = ''amocrm''" "isActive amoRule7"
  by (simp_all add: dormantEnv_def amoEnv_def brokenEnv_def dormantRule_def amoRule7_def rule7_def)

lemma dormant_lp_state:
  defines "w4 \<equiv> logAt LInfo (JStr ''u1'') CacheRulesStored
          (cache_set ''sync_rules:u1'' (RulesVal [dormantRule]) RULES_CACHE_TTL
            (logAt LInfo (JStr ''u1'') LpProcessing (logAt LInfo JUndef LpAnalysis world0)))"
  shows "snd (processLpTrackerWebhookDirect dormantEnv stage142 world0)
           = lpDispatch dormantEnv ''u1'' stage142 rule7 ''webhook:u1:42:7:default'' w4"
    and "execCount w4 rid = 0" and "syncCalls w4 = []"
proof -
  have ne: "\<not> cache_exists w4 ''webhook:u1:42:7:default''"
    by (simp add: w4_def cache_exists_def cache_set_def redis_setex_def redis_lookup_def
        logAt_def world0_def)
  have d: "lpDispatches dormantEnv ''u1'' stage142 rule7 w4"
    using ne by (simp add: lpDispatches_def dormant_fields cc_rule78 keys_rule78 relevant_rule78)
  show "snd (processLpTrackerWebhookDirect dormantEnv stage142 world0)
           = lpDispatch dormantEnv ''u1'' stage142 rule7 ''webhook:u1:42:7:default'' w4"
    by (simp add: dormant_lp_run w4_def[symmetric] lpRuleStep_dispatch[OF d keys_rule78(1)])
  show "execCount w4 rid = 0" "syncCalls w4 = []"
    by (simp_all add: w4_def cache_set_def redis_setex_def logAt_def world0_def)
qed

lemma cached_amo_state:
  defines "w1 \<equiv> logAt LInfo (JStr ''u1'') (AmoCheckingRules (Suc 0)) cachedEmpty"
  shows "snd (processLeadRules amoEnv ''u1'' (JStr ''77'') lead142 [] (JObj []) cachedEmpty)
           = amoDispatch amoEnv ''u1'' (amoEventEntries ''u1'' (JStr ''77'') lead142 [] (JObj []))
               rule7 ''webhook:u1:77:7:default'' w1"
    and "execCount cachedEmpty rid = 0"
proof -
  have ne: "\<not> cache_exists w1 ''webhook:u1:77:7:default''"
    by (simp add: w1_def cachedEmpty_def cache_exists_def cache_set_def redis_setex_def
        redis_lookup_def logAt_def world0_def)
  have st: "amoRuleStep amoEnv ''u1'' (JStr ''77'') lead142 [] (JObj []) amoRule7 w1
      = (None, amoDispatch amoEnv ''u1'' (amoEventEntries ''u1'' (JStr ''77'') lead142 [] (JObj []))
               rule7 ''webhook:u1:77:7:default'' w1)"
    unfolding amoRule7_def
    using ne
    by (simp add: amoRuleStep_ignores_source
        amoRuleStep_cases[OF keys_rule78(3) lead142_pipeline] dormant_fields cc_rule78_amo)
  have nm: "getProp lead142 ''name'' = Some JUndef" by (simp add: lead142_def)
  show "snd (processLeadRules amoEnv ''u1'' (JStr ''77'') lead142 [] (JObj []) cachedEmpty)
           = amoDispatch amoEnv ''u1'' (amoEventEntries ''u1'' (JStr ''77'') lead142 [] (JObj []))
               rule7 ''webhook:u1:77:7:default'' w1"
    by (simp add: processLeadRules_def leadRulesAttempt_def dormant_fields nm
        w1_def[symmetric] st)
  show "execCount cachedEmpty rid = 0"
    by (simp add: cachedEmpty_def world0_fields)
qed

text \<open>
  Claim C4 against the code. The LPTracker loop runs every rule the configuration cache
  returns, whatever its source tag and its \<open>isActive\<close> flag: changing them changes nothing
  in an iteration, and an inactive rule tagged \<open>amocrm\<close> is dispatched and counted for an
  LPTracker event. The AmoCRM path does filter on both, and reads the rules from the
  configuration store, not through the cache: with an empty rule list cached for the
  user it still dispatches the stored rule.
\<close>

theorem lptracker_rules_not_filtered:
  "lpRuleStep e u wd (r\<lparr>webhookSource := s, isActive := b\<rparr>) w = lpRuleStep e u wd r w
   \<and> getSyncRules dormantEnv ''u1'' = Inr [dormantRule]
   \<and> webhookSource dormantRule = ''amocrm'' \<and> \<not> isActive dormantRule
   \<and> fst (processLpTrackerWebhookDirect dormantEnv stage142 world0) = None
   \<and> execCount (snd (processLpTrackerWebhookDirect dormantEnv stage142 world0)) (ruleId dormantRule) = 1
   \<and> map fst (syncCalls (snd (processLpTrackerWebhookDirect dormantEnv stage142 world0))) = [AmoCrm]
   \<and> fst (getCachedSyncRules amoEnv ''u1'' cachedEmpty) = Inr []
   \<and> execCount (snd (processLeadRules amoEnv ''u1'' (JStr ''77'') lead142 [] (JObj []) cachedEmpty))
        (ruleId amoRule7) = 1"
proof -
  have c1: "lpRuleStep e u wd (r\<lparr>webhookSource := s, isActive := b\<rparr>) w = lpRuleStep e u wd r w"
    by (rule lpRuleStep_ignores_tags)
  have c2: "getSyncRules dormantEnv ''u1'' = Inr [dormantRule]"
    by (simp add: dormantEnv_def)
  have c3: "webhookSource dormantRule = ''amocrm''" "\<not> isActive dormantRule"
    by (simp_all add: dormant_fields)
  have c4: "fst (processLpTrackerWebhookDirect dormantEnv stage142 world0) = None"
    by (simp add: dormant_lp_run)
  have rid: "ruleId dormantRule = 7" "ruleId amoRule7 = 7"
    by (simp_all add: dormantRule_def amoRule7_def rule_ids)
  have c5: "execCount (snd (processLpTrackerWebhookDirect dormantEnv stage142 world0)) (ruleId dormantRule) = 1"
    by (simp add: dormant_lp_state(1) lpDispatch_execCount dormant_fields rule_ids rid world0_fields)
  have b: "buildSyncRecord (rt dormantEnv) (JObj [(''type'', JStr ''sync_to_amocrm'')])
      (JObj (lpEventEntries ''u1'' stage142)) \<noteq> None"
    by (simp add: dormant_fields build_stage142)
  then obtain sr where sr: "buildSyncRecord (rt dormantEnv) (JObj [(''type'', JStr ''sync_to_amocrm'')])
      (JObj (lpEventEntries ''u1'' stage142)) = Some sr" by blast
  have c6: "map fst (syncCalls (snd (processLpTrackerWebhookDirect dormantEnv stage142 world0))) = [AmoCrm]"
    by (simp add: dormant_lp_state(1) lpDispatch_syncCalls rule_fields
        executeActions_syncToAmo[OF sr] logAt_def)
  have c7: "fst (getCachedSyncRules amoEnv ''u1'' cachedEmpty) = Inr []"
    by (simp add: getCachedSyncRules_def cachedEmpty_def cache_get_def cache_set_def
        redis_setex_def redis_lookup_def world0_def RULES_CACHE_TTL_def)
  have c8: "execCount (snd (processLeadRules amoEnv ''u1'' (JStr ''77'') lead142 [] (JObj []) cachedEmpty))
        (ruleId amoRule7) = 1"
    by (simp add: cached_amo_state amoDispatch_execCount dormant_fields rule_ids rid)
  show ?thesis
    by (intro conjI) (fact c1, fact c2, fact c3(1), fact c3(2), fact c4, fact c5, fact c6, fact c7, fact c8)
qed

section \<open>Cache invalidation and the dedup markers\<close>

lemma plainId_simps [simp]:
  "plainId []"
  "plainId (c # u) = (c \<noteq> CHR ''*'' \<and> c \<noteq> CHR ''?'' \<and> c \<noteq> CHR ''['' \<and> c \<noteq> backslash \<and> plainId u)"
  "plainId (u @ v) = (plainId u \<and> plainId v)"
  by (simp_all add: plainId_def)

lemma glob_prefix: "plainId pre \<Longrightarrow> glob_match (pre @ ps) (pre @ s) = glob_match ps s"
  by (induction pre) (simp_all add: glob_match.simps)

lemma glob_star_all: "glob_match ''*'' s"
  by (induction s) (simp_all add: glob_match.simps)

lemma glob_star_here: "glob_match ps s \<Longrightarrow> glob_match (CHR ''*'' # ps) s"
  by (cases s) (simp_all add: glob_match.simps)

lemma glob_star_absorb: "glob_match ps s \<Longrightarrow> glob_match (CHR ''*'' # ps) (t @ s)"
  by (induction t) (simp_all add: glob_star_here glob_match.simps)

lemma glob_user_suffix: "plainId u \<Longrightarrow> glob_match (u @ ''*'') (u @ s)"
  using glob_prefix[of u "''*''" s] by (simp add: glob_star_all)

lemma flushPattern_fields [simp]:
  "clock (flushPattern p w) = clock w" "redisUp (flushPattern p w) = redisUp w"
  "execCount (flushPattern p w) = execCount w" "syncCalls (flushPattern p w) = syncCalls w"
  "logs (flushPattern p w) = logs w"
  by (simp_all add: flushPattern_def redis_del_def Let_def)

lemma redis_lookup_flushPattern:
  "redis_lookup (flushPattern p w) k =
     (if redisUp w \<and> glob_match (''crm:'' @ p) k then None else redis_lookup w k)"
proof (cases "redisUp w")
  case False
  then show ?thesis by (simp add: flushPattern_def cache_keys_def)
next
  case True
  let ?ks = "redis_keys w (''crm:'' @ p)"
  have mem: "k \<in> set ?ks \<longleftrightarrow> redis_lookup w k \<noteq> None \<and> glob_match (''crm:'' @ p) k"
  proof -
    have "k \<in> fst ` set (redisStore w)" if "redis_lookup w k \<noteq> None"
    proof -
      from that have "map_of (redisStore w) k \<noteq> None"
        by (auto simp add: redis_lookup_def split: option.splits)
      then show ?thesis by (simp add: map_of_eq_None_iff)
    qed
    then show ?thesis by (auto simp add: redis_keys_def)
  qed
  have del: "redis_lookup (redis_del ?ks w) k = (if k \<in> set ?ks then None else redis_lookup w k)"
    using map_of_filter_fst[of "\<lambda>x. x \<notin> set ?ks" "redisStore w" k]
    by (simp add: redis_del_def redis_lookup_def split: option.splits)
  show ?thesis
  proof (cases "?ks = []")
    case True
    with mem have "redis_lookup w k = None \<or> \<not> glob_match (''crm:'' @ p) k" by simp
    with True \<open>redisUp w\<close> show ?thesis by (auto simp add: flushPattern_def cache_keys_def)
  next
    case False
    with \<open>redisUp w\<close> have "flushPattern p w = redis_del ?ks w"
      by (simp add: flushPattern_def cache_keys_def)
    with del mem \<open>redisUp w\<close> show ?thesis by auto
  qed
qed

lemma redis_lookup_logAt [simp]: "redis_lookup (logAt l u m w) k = redis_lookup w k"
  by (simp add: redis_lookup_def split: option.splits)

lemma redis_lookup_pools [simp]: "redis_lookup (w\<lparr>connectionPools := x\<rparr>) k = redis_lookup w k"
  by (simp add: redis_lookup_def split: option.splits)

lemma invalidateUserCache_fields:
  "clock (invalidateUserCache u w) = clock w" "redisUp (invalidateUserCache u w) = redisUp w"
  "execCount (invalidateUserCache u w) = execCount w"
  by (simp_all add: invalidateUserCache_def)

lemma clearAllCaches_fields:
  "clock (clearAllCaches w) = clock w" "redisUp (clearAllCaches w) = redisUp w"
  "execCount (clearAllCaches w) = execCount w"
  by (simp_all add: clearAllCaches_def)

lemma redis_lookup_invalidate:
  "redis_lookup (invalidateUserCache u w) k =
     (if redisUp w \<and> (glob_match (''crm:sync_rules:'' @ u @ ''*'') k
                      \<or> glob_match (''crm:metadata:*:'' @ u @ ''*'') k
                      \<or> glob_match (''crm:settings:*:'' @ u @ ''*'') k
                      \<or> glob_match (''crm:webhook:'' @ u @ ''*'') k)
      then None else redis_lookup w k)"
  by (auto simp add: invalidateUserCache_def redis_lookup_flushPattern)

lemma redis_lookup_clearAll:
  "redis_lookup (clearAllCaches w) k =
     (if redisUp w \<and> (glob_match ''crm:sync_rules:*'' k \<or> glob_match ''crm:metadata:*'' k
                      \<or> glob_match ''crm:settings:*'' k \<or> glob_match ''crm:webhook:*'' k)
      then None else redis_lookup w k)"
  by (auto simp add: clearAllCaches_def redis_lookup_flushPattern)

lemma key_shape:
  assumes "generateWebhookKey u l rid ts = Some key"
  shows "\<exists>rest. ''crm:'' @ key = ''crm:webhook:'' @ u @ rest"
  using assms by (auto simp add: generateWebhookKey_eq split: if_splits)

lemma plain_prefixes:
  "plainId ''crm:webhook:''" "plainId ''crm:sync_rules:''" "plainId ''crm:settings:''"
  "plainId ''crm:metadata:''" "plainId '':''"
  by (simp_all add: backslash_def)

lemma webhook_key_matches_user:
  assumes "plainId u" "generateWebhookKey u l rid ts = Some key"
  shows "glob_match (''crm:webhook:'' @ u @ ''*'') (''crm:'' @ key)"
proof -
  from key_shape[OF assms(2)] obtain rest where r: "''crm:'' @ key = ''crm:webhook:'' @ u @ rest" ..
  have "glob_match ((''crm:webhook:'' @ u) @ ''*'') ((''crm:webhook:'' @ u) @ rest)"
    by (rule glob_user_suffix) (simp add: assms(1) backslash_def)
  then show ?thesis unfolding r by simp
qed

lemma webhook_key_matches_all:
  assumes "generateWebhookKey u l rid ts = Some key"
  shows "glob_match ''crm:webhook:*'' (''crm:'' @ key)"
proof -
  from key_shape[OF assms] obtain rest where r: "''crm:'' @ key = ''crm:webhook:'' @ u @ rest" ..
  have "glob_match (''crm:webhook:'' @ ''*'') (''crm:webhook:'' @ (u @ rest))"
    by (rule glob_user_suffix) (simp add: backslash_def)
  then show ?thesis unfolding r by simp
qed

lemma not_exists_after_invalidate:
  assumes "plainId u" "generateWebhookKey u l rid ts = Some key"
  shows "\<not> cache_exists (invalidateUserCache u w) key"
  using webhook_key_matches_user[OF assms]
  by (simp add: cache_exists_def redis_lookup_invalidate invalidateUserCache_fields)

lemma not_exists_after_clearAll:
  assumes "generateWebhookKey u l rid ts = Some key"
  shows "\<not> cache_exists (clearAllCaches w) key"
  using webhook_key_matches_all[OF assms]
  by (simp add: cache_exists_def redis_lookup_clearAll clearAllCaches_fields)

lemma lpDedupKey_Some:
  "lpDedupKey u wd r = Some key \<Longrightarrow> \<exists>l ts. generateWebhookKey u l (ruleId r) ts = Some key"
  by (auto simp add: lpDedupKey_def split: Option.bind_splits)

lemma config_keys_match:
  assumes "plainId u"
  shows "glob_match (''crm:sync_rules:'' @ u @ ''*'') (''crm:sync_rules:'' @ u)"
    and "glob_match (''crm:settings:*:'' @ u @ ''*'') (''crm:settings:'' @ ty @ '':'' @ u)"
    and "glob_match (''crm:metadata:*:'' @ u @ ''*'') (''crm:metadata:'' @ ty @ '':'' @ u @ '':'' @ mt)"
proof -
  have a: "glob_match ((''crm:sync_rules:'' @ u) @ ''*'') ((''crm:sync_rules:'' @ u) @ [])"
    by (rule glob_user_suffix) (simp add: assms backslash_def)
  then show "glob_match (''crm:sync_rules:'' @ u @ ''*'') (''crm:sync_rules:'' @ u)" by simp
  have t: "\<And>s. glob_match (('':'' @ u) @ ''*'') (('':'' @ u) @ s)"
    by (rule glob_user_suffix) (simp add: assms backslash_def)
  have "glob_match (CHR ''*'' # ('':'' @ u) @ ''*'') (ty @ ('':'' @ u) @ [])"
    by (rule glob_star_absorb) (rule t)
  then have "glob_match (''crm:settings:'' @ (CHR ''*'' # ('':'' @ u) @ ''*''))
                (''crm:settings:'' @ (ty @ ('':'' @ u) @ []))"
    by (simp only: glob_prefix[OF plain_prefixes(3)])
  then show "glob_match (''crm:settings:*:'' @ u @ ''*'') (''crm:settings:'' @ ty @ '':'' @ u)" by simp
  have "glob_match (CHR ''*'' # ('':'' @ u) @ ''*'') (ty @ ('':'' @ u) @ ('':'' @ mt))"
    by (rule glob_star_absorb) (rule t)
  then have "glob_match (''crm:metadata:'' @ (CHR ''*'' # ('':'' @ u) @ ''*''))
                (''crm:metadata:'' @ (ty @ ('':'' @ u) @ ('':'' @ mt)))"
    by (simp only: glob_prefix[OF plain_prefixes(4)])
  then show "glob_match (''crm:metadata:*:'' @ u @ ''*'') (''crm:metadata:'' @ ty @ '':'' @ u @ '':'' @ mt)"
    by simp
qed

lemma redispatch_lp:
  assumes "checkConditions (rt e) (conditions r) wd" "lpDedupKey u wd r = Some key"
    "isWebhookRelevant wd r = Some True" "\<not> cache_exists w' key"
  shows "lpRuleStep e u wd r w' = lpDispatch e u wd r key w'"
  using assms by (intro lpRuleStep_dispatch) (simp_all add: lpDispatches_def)

lemma redispatch_amo:
  assumes "checkConditions (rt e) (conditions r) (JObj (amoEventEntries u leadId ld cds pl))"
    "amoDedupKey u leadId r = Some key" "getProp ld ''pipeline_id'' \<noteq> None"
    "\<not> cache_exists w' key"
  shows "amoRuleStep e u leadId ld cds pl r w'
           = (None, amoDispatch e u (amoEventEntries u leadId ld cds pl) r key w')"
  using assms(1,4) by (simp add: amoRuleStep_cases[OF assms(2,3)])

lemma amoDedupKey_gen:
  "amoDedupKey u leadId r = Some key \<Longrightarrow> \<exists>l ts. generateWebhookKey u l (ruleId r) ts = Some key"
  using amoDedupKey_Some by blast

text \<open>
  Claim C10. \<open>invalidateUserCache\<close> leaves the clock alone and removes from Redis exactly
  the live keys that match one of its four patterns, among them \<open>crm:webhook:{userId}*\<close>.
  For a user id without glob characters the user's cached rules, settings and metadata
  and every dedup key of the user are therefore absent afterwards, whatever lead, rule
  and timestamp the key names, so a rule that passes the condition and relevance checks
  is dispatched again at once, although its key may have been marked a moment before.
  \<open>clearAllCaches\<close> does the same for the dedup keys of every user.
\<close>

theorem invalidation_erases_dedup_markers:
  "redis_lookup (invalidateUserCache u w) k =
     (if redisUp w \<and> (glob_match (''crm:sync_rules:'' @ u @ ''*'') k
                      \<or> glob_match (''crm:metadata:*:'' @ u @ ''*'') k
                      \<or> glob_match (''crm:settings:*:'' @ u @ ''*'') k
                      \<or> glob_match (''crm:webhook:'' @ u @ ''*'') k)
      then None else redis_lookup w k)
   \<and> clock (invalidateUserCache u w) = clock w
   \<and> clock (clearAllCaches w) = clock w
   \<and> (plainId u \<longrightarrow>
        cache_get (invalidateUserCache u w) (''sync_rules:'' @ u) = None
        \<and> cache_get (invalidateUserCache u w) (''settings:'' @ ty @ '':'' @ u) = None
        \<and> cache_get (invalidateUserCache u w) (''metadata:'' @ ty @ '':'' @ u @ '':'' @ mt) = None)
   \<and> (plainId u \<and> generateWebhookKey u l rid ts = Some gkey \<longrightarrow>
        \<not> cache_exists (invalidateUserCache u w) gkey
        \<and> isWebhookAlreadyProcessed (invalidateUserCache u w) u l rid ts = Some False)
   \<and> (generateWebhookKey u l rid ts = Some gkey \<longrightarrow>
        \<not> cache_exists (clearAllCaches w) gkey
        \<and> isWebhookAlreadyProcessed (clearAllCaches w) u l rid ts = Some False)
   \<and> (checkConditions (rt e) (conditions r) wd \<and> lpDedupKey u wd r = Some key
        \<and> isWebhookRelevant wd r = Some True \<longrightarrow>
        (plainId u \<longrightarrow> lpRuleStep e u wd r (invalidateUserCache u w)
                          = lpDispatch e u wd r key (invalidateUserCache u w))
        \<and> lpRuleStep e u wd r (clearAllCaches w) = lpDispatch e u wd r key (clearAllCaches w))
   \<and> (checkConditions (rt e) (conditions r) (JObj (amoEventEntries u leadId ld cds pl))
        \<and> amoDedupKey u leadId r = Some akey \<and> getProp ld ''pipeline_id'' \<noteq> None \<longrightarrow>
        (plainId u \<longrightarrow> amoRuleStep e u leadId ld cds pl r (invalidateUserCache u w)
             = (None, amoDispatch e u (amoEventEntries u leadId ld cds pl) r akey
                        (invalidateUserCache u w)))
        \<and> amoRuleStep e u leadId ld cds pl r (clearAllCaches w)
             = (None, amoDispatch e u (amoEventEntries u leadId ld cds pl) r akey (clearAllCaches w)))"
proof -
  have c1: "redis_lookup (invalidateUserCache u w) k =
     (if redisUp w \<and> (glob_match (''crm:sync_rules:'' @ u @ ''*'') k
                      \<or> glob_match (''crm:metadata:*:'' @ u @ ''*'') k
                      \<or> glob_match (''crm:settings:*:'' @ u @ ''*'') k
                      \<or> glob_match (''crm:webhook:'' @ u @ ''*'') k)
      then None else redis_lookup w k)"
    by (rule redis_lookup_invalidate)
  have c2: "clock (invalidateUserCache u w) = clock w"
    by (rule invalidateUserCache_fields)
  have c3: "clock (clearAllCaches w) = clock w"
    by (rule clearAllCaches_fields)
  have c4: "plainId u \<longrightarrow>
        cache_get (invalidateUserCache u w) (''sync_rules:'' @ u) = None
        \<and> cache_get (invalidateUserCache u w) (''settings:'' @ ty @ '':'' @ u) = None
        \<and> cache_get (invalidateUserCache u w) (''metadata:'' @ ty @ '':'' @ u @ '':'' @ mt) = None"
  proof
    assume pl: "plainId u"
    show "cache_get (invalidateUserCache u w) (''sync_rules:'' @ u) = None
        \<and> cache_get (invalidateUserCache u w) (''settings:'' @ ty @ '':'' @ u) = None
        \<and> cache_get (invalidateUserCache u w) (''metadata:'' @ ty @ '':'' @ u @ '':'' @ mt) = None"
      using config_keys_match(1)[OF pl] config_keys_match(2)[OF pl, of ty]
        config_keys_match(3)[OF pl, of ty mt]
      by (simp add: cache_get_def redis_lookup_invalidate invalidateUserCache_fields)
  qed
  have c5: "plainId u \<and> generateWebhookKey u l rid ts = Some gkey \<longrightarrow>
        \<not> cache_exists (invalidateUserCache u w) gkey
        \<and> isWebhookAlreadyProcessed (invalidateUserCache u w) u l rid ts = Some False"
    using not_exists_after_invalidate[of u l rid ts gkey w]
    by (simp add: isWebhookAlreadyProcessed_def)
  have c6: "generateWebhookKey u l rid ts = Some gkey \<longrightarrow>
        \<not> cache_exists (clearAllCaches w) gkey
        \<and> isWebhookAlreadyProcessed (clearAllCaches w) u l rid ts = Some False"
    using not_exists_after_clearAll[of u l rid ts gkey w]
    by (simp add: isWebhookAlreadyProcessed_def)
  have c7: "checkConditions (rt e) (conditions r) wd \<and> lpDedupKey u wd r = Some key
        \<and> isWebhookRelevant wd r = Some True \<longrightarrow>
        (plainId u \<longrightarrow> lpRuleStep e u wd r (invalidateUserCache u w)
                          = lpDispatch e u wd r key (invalidateUserCache u w))
        \<and> lpRuleStep e u wd r (clearAllCaches w) = lpDispatch e u wd r key (clearAllCaches w)"
  proof (intro impI conjI)
    assume h: "checkConditions (rt e) (conditions r) wd \<and> lpDedupKey u wd r = Some key
        \<and> isWebhookRelevant wd r = Some True"
    from h lpDedupKey_Some obtain l' ts' where g: "generateWebhookKey u l' (ruleId r) ts' = Some key"
      by blast
    show "lpRuleStep e u wd r (clearAllCaches w) = lpDispatch e u wd r key (clearAllCaches w)"
      using h not_exists_after_clearAll[OF g] by (intro redispatch_lp) simp_all
    assume pl: "plainId u"
    show "lpRuleStep e u wd r (invalidateUserCache u w)
            = lpDispatch e u wd r key (invalidateUserCache u w)"
      using h not_exists_after_invalidate[OF pl g] by (intro redispatch_lp) simp_all
  qed
  have c8: "checkConditions (rt e) (conditions r) (JObj (amoEventEntries u leadId ld cds pl))
        \<and> amoDedupKey u leadId r = Some akey \<and> getProp ld ''pipeline_id'' \<noteq> None \<longrightarrow>
        (plainId u \<longrightarrow> amoRuleStep e u leadId ld cds pl r (invalidateUserCache u w)
             = (None, amoDispatch e u (amoEventEntries u leadId ld cds pl) r akey
                        (invalidateUserCache u w)))
        \<and> amoRuleStep e u leadId ld cds pl r (clearAllCaches w)
             = (None, amoDispatch e u (amoEventEntries u leadId ld cds pl) r akey (clearAllCaches w))"
  proof (intro impI conjI)
    assume h: "checkConditions (rt e) (conditions r) (JObj (amoEventEntries u leadId ld cds pl))
        \<and> amoDedupKey u leadId r = Some akey \<and> getProp ld ''pipeline_id'' \<noteq> None"
    from h amoDedupKey_gen obtain l' ts' where g: "generateWebhookKey u l' (ruleId r) ts' = Some akey"
      by blast
    show "amoRuleStep e u leadId ld cds pl r (clearAllCaches w)
             = (None, amoDispatch e u (amoEventEntries u leadId ld cds pl) r akey (clearAllCaches w))"
      using h not_exists_after_clearAll[OF g] by (intro redispatch_amo) simp_all
    assume pl: "plainId u"
    show "amoRuleStep e u leadId ld cds pl r (invalidateUserCache u w)
             = (None, amoDispatch e u (amoEventEntries u leadId ld cds pl) r akey
                        (invalidateUserCache u w))"
      using h not_exists_after_invalidate[OF pl g] by (intro redispatch_amo) simp_all
  qed
  show ?thesis
    by (intro conjI) (fact c1, fact c2, fact c3, fact c4, fact c5, fact c6, fact c7, fact c8)
qed

lemma afterFirstLp_eq:
  "afterFirstLp = lpDispatch brokenEnv ''u1'' stage142 rule7 ''webhook:u1:42:7:default'' world0"
  by (simp add: afterFirstLp_def lpRuleStep_dispatch[OF disp_lp_world0(1) keys_rule78(1)])

lemma afterFirstAmo_eq:
  "afterFirstAmo = amoDispatch brokenEnv ''u1'' (amoEventEntries ''u1'' (JStr ''77'') lead142 [] (JObj []))
                     rule7 ''webhook:u1:77:7:default'' world0"
proof -
  have js: "js_String (JStr ''77'') = Some ''77''" by simp
  show ?thesis
    by (simp add: afterFirstAmo_def amoRuleLoop_single[OF js] amo_step_world0 env_fields cc_rule78_amo
        del: amoRuleLoop.simps(2))
qed

lemma afterFirst_marked:
  "cache_exists afterFirstLp ''webhook:u1:42:7:default''"
  "cache_exists afterFirstAmo ''webhook:u1:77:7:default''"
  "execCount afterFirstLp 7 = 1" "execCount afterFirstAmo 7 = 1"
  "clock afterFirstLp = 1000" "clock afterFirstAmo = 1000"
proof -
  have m: "markedUntil afterFirstLp ''webhook:u1:42:7:default'' (clock world0 + WEBHOOK_DEDUP_TTL)"
    unfolding afterFirstLp_eq by (rule lpDispatch_marks) (simp add: world0_fields)
  show "cache_exists afterFirstLp ''webhook:u1:42:7:default''"
    using m
    by (auto simp add: cache_exists_marked afterFirstLp_eq lpDispatch_fields world0_fields
        markedUntil_def WEBHOOK_DEDUP_TTL_def)
  have m2: "markedUntil afterFirstAmo ''webhook:u1:77:7:default'' (clock world0 + WEBHOOK_DEDUP_TTL)"
    unfolding afterFirstAmo_eq by (rule amoDispatch_marks) (simp add: world0_fields)
  show "cache_exists afterFirstAmo ''webhook:u1:77:7:default''"
    using m2
    by (auto simp add: cache_exists_marked afterFirstAmo_eq amoDispatch_fields world0_fields
        markedUntil_def WEBHOOK_DEDUP_TTL_def)
  show "execCount afterFirstLp 7 = 1" "execCount afterFirstAmo 7 = 1"
    by (simp_all add: afterFirstLp_eq afterFirstAmo_eq lpDispatch_execCount amoDispatch_execCount
        env_fields rule_ids world0_fields)
  show "clock afterFirstLp = 1000" "clock afterFirstAmo = 1000"
    by (simp_all add: afterFirstLp_eq afterFirstAmo_eq lpDispatch_fields amoDispatch_fields world0_fields)
qed

text \<open>
  Claim C10 at a concrete run: rule 7 has just been dispatched for lead 42 (LPTracker)
  and for lead 77 (AmoCRM) of user \<open>u1\<close> at second 1000, so its keys are marked and a
  repeated event is suppressed; after \<open>invalidateUserCache\<close> or \<open>clearAllCaches\<close>, at
  the same second, the keys are absent and the repeated event is dispatched and counted
  a second time.
\<close>

theorem invalidation_erases_dedup_markers_witness:
  "plainId ''u1''
   \<and> cache_exists afterFirstLp ''webhook:u1:42:7:default''
   \<and> lpRuleStep brokenEnv ''u1'' stage142 rule7 afterFirstLp
       = logAt LInfo (JStr ''u1'') (LpRuleAlreadyProcessed 7) afterFirstLp
   \<and> clock (invalidateUserCache ''u1'' afterFirstLp) = 1000
   \<and> \<not> cache_exists (invalidateUserCache ''u1'' afterFirstLp) ''webhook:u1:42:7:default''
   \<and> \<not> cache_exists (clearAllCaches afterFirstLp) ''webhook:u1:42:7:default''
   \<and> execCount afterFirstLp 7 = 1
   \<and> execCount (lpRuleStep brokenEnv ''u1'' stage142 rule7 (invalidateUserCache ''u1'' afterFirstLp)) 7 = 2
   \<and> execCount (lpRuleStep brokenEnv ''u1'' stage142 rule7 (clearAllCaches afterFirstLp)) 7 = 2
   \<and> cache_exists afterFirstAmo ''webhook:u1:77:7:default''
   \<and> execCount afterFirstAmo 7 = 1
   \<and> execCount (snd (amoRuleStep brokenEnv ''u1'' (JStr ''77'') lead142 [] (JObj []) rule7
                       (invalidateUserCache ''u1'' afterFirstAmo))) 7 = 2
   \<and> execCount (snd (amoRuleStep brokenEnv ''u1'' (JStr ''77'') lead142 [] (JObj []) rule7
                       (clearAllCaches afterFirstAmo))) 7 = 2"
proof -
  have pl: "plainId ''u1''" by (simp add: backslash_def)
  have gk: "generateWebhookKey ''u1'' ''42'' 7 JUndef = Some ''webhook:u1:42:7:default''"
    by (simp add: generateWebhookKey_default show_int_small)
  note lp = invalidation_erases_dedup_markers[where u = "''u1''" and w = afterFirstLp
      and e = brokenEnv and r = rule7 and wd = stage142 and key = "''webhook:u1:42:7:default''"
      and l = "''42''" and rid = 7 and ts = JUndef and gkey = "''webhook:u1:42:7:default''"
      and leadId = "JStr ''77''" and ld = lead142 and cds = "[]" and pl = "JObj []"
      and akey = "''webhook:u1:77:7:default''"]
  note amo = invalidation_erases_dedup_markers[where u = "''u1''" and w = afterFirstAmo
      and e = brokenEnv and r = rule7 and wd = stage142 and key = "''webhook:u1:42:7:default''"
      and l = "''42''" and rid = 7 and ts = JUndef and gkey = "''webhook:u1:42:7:default''"
      and leadId = "JStr ''77''" and ld = lead142 and cds = "[]" and pl = "JObj []"
      and akey = "''webhook:u1:77:7:default''"]
  have c2: "cache_exists afterFirstLp ''webhook:u1:42:7:default''" by (rule afterFirst_marked)
  have c3: "lpRuleStep brokenEnv ''u1'' stage142 rule7 afterFirstLp
       = logAt LInfo (JStr ''u1'') (LpRuleAlreadyProcessed 7) afterFirstLp"
    using c2 by (simp add: lpRuleStep_cases env_fields cc_rule78 keys_rule78 rule_ids)
  have c4: "clock (invalidateUserCache ''u1'' afterFirstLp) = 1000"
    using lp by (simp add: afterFirst_marked)
  have c5: "\<not> cache_exists (invalidateUserCache ''u1'' afterFirstLp) ''webhook:u1:42:7:default''"
    using lp pl gk by simp
  have c6: "\<not> cache_exists (clearAllCaches afterFirstLp) ''webhook:u1:42:7:default''"
    using lp gk by simp
  have c7: "execCount afterFirstLp 7 = 1" by (rule afterFirst_marked)
  have s1: "lpRuleStep brokenEnv ''u1'' stage142 rule7 (invalidateUserCache ''u1'' afterFirstLp)
      = lpDispatch brokenEnv ''u1'' stage142 rule7 ''webhook:u1:42:7:default''
          (invalidateUserCache ''u1'' afterFirstLp)"
    and s2: "lpRuleStep brokenEnv ''u1'' stage142 rule7 (clearAllCaches afterFirstLp)
      = lpDispatch brokenEnv ''u1'' stage142 rule7 ''webhook:u1:42:7:default''
          (clearAllCaches afterFirstLp)"
    using lp pl by (simp_all add: env_fields cc_rule78 keys_rule78 relevant_rule78)
  have c8: "execCount (lpRuleStep brokenEnv ''u1'' stage142 rule7 (invalidateUserCache ''u1'' afterFirstLp)) 7 = 2"
    by (simp add: s1 lpDispatch_execCount env_fields rule_ids invalidateUserCache_fields c7)
  have c9: "execCount (lpRuleStep brokenEnv ''u1'' stage142 rule7 (clearAllCaches afterFirstLp)) 7 = 2"
    by (simp add: s2 lpDispatch_execCount env_fields rule_ids clearAllCaches_fields c7)
  have c10: "cache_exists afterFirstAmo ''webhook:u1:77:7:default''" by (rule afterFirst_marked)
  have c11: "execCount afterFirstAmo 7 = 1" by (rule afterFirst_marked)
  have a1: "amoRuleStep brokenEnv ''u1'' (JStr ''77'') lead142 [] (JObj []) rule7
                       (invalidateUserCache ''u1'' afterFirstAmo)
      = (None, amoDispatch brokenEnv ''u1'' (amoEventEntries ''u1'' (JStr ''77'') lead142 [] (JObj []))
                 rule7 ''webhook:u1:77:7:default'' (invalidateUserCache ''u1'' afterFirstAmo))"
    and a2: "amoRuleStep brokenEnv ''u1'' (JStr ''77'') lead142 [] (JObj []) rule7
                       (clearAllCaches afterFirstAmo)
      = (None, amoDispatch brokenEnv ''u1'' (amoEventEntries ''u1'' (JStr ''77'') lead142 [] (JObj []))
                 rule7 ''webhook:u1:77:7:default'' (clearAllCaches afterFirstAmo))"
    using amo pl lead142_pipeline by (simp_all add: env_fields cc_rule78_amo keys_rule78)
  have c12: "execCount (snd (amoRuleStep brokenEnv ''u1'' (JStr ''77'') lead142 [] (JObj []) rule7
                       (invalidateUserCache ''u1'' afterFirstAmo))) 7 = 2"
    by (simp add: a1 amoDispatch_execCount env_fields rule_ids invalidateUserCache_fields c11)
  have c13: "execCount (snd (amoRuleStep brokenEnv ''u1'' (JStr ''77'') lead142 [] (JObj []) rule7
                       (clearAllCaches afterFirstAmo))) 7 = 2"
    by (simp add: a2 amoDispatch_execCount env_fields rule_ids clearAllCaches_fields c11)
  show ?thesis
    by (intro conjI) (fact pl, fact c2, fact c3, fact c4, fact c5, fact c6, fact c7, fact c8,
        fact c9, fact c10, fact c11, fact c12, fact c13)
qed

section \<open>The relevance filter and the fields of a rule\<close>

lemma strictEq_JStr [simp]: "strictEq y (JStr s) = (y = JStr s)"
  by (cases y) (simp_all add: strictEq_def)

lemma some_list_True: "some_list cb xs = Some True \<Longrightarrow> \<exists>x \<in> set xs. cb x = Some True"
proof (induction xs)
  case Nil
  then show ?case by simp
next
  case (Cons x xs)
  then show ?case by (cases "cb x") (auto split: if_splits)
qed

lemma some_list_False: "some_list cb xs = Some False \<Longrightarrow> \<forall>x \<in> set xs. cb x = Some False"
proof (induction xs)
  case Nil
  then show ?case by simp
next
  case (Cons x xs)
  then show ?case by (cases "cb x") (auto split: if_splits)
qed

lemma fieldTouched_char:
  assumes "fieldTouched fs x = Some b"
  shows "b = (\<exists>field \<in> set fs. touches field x)"
proof -
  from assms obtain p where p: "js_String x = Some p"
    and s: "some_list (\<lambda>field. do {
        b \<leftarrow> js_includes field x;
        Some (b \<or> strictEq field (JStr (''custom.'' @ p))) }) fs = Some b"
    by (auto simp add: fieldTouched_def split: Option.bind_splits)
  show ?thesis
  proof (cases b)
    case True
    with s have "some_list (\<lambda>field. do {
        b \<leftarrow> js_includes field x;
        Some (b \<or> strictEq field (JStr (''custom.'' @ p))) }) fs = Some True" by simp
    from some_list_True[OF this] obtain field where "field \<in> set fs"
      "do { b \<leftarrow> js_includes field x; Some (b \<or> strictEq field (JStr (''custom.'' @ p))) } = Some True"
      by blast
    then have "field \<in> set fs \<and> touches field x"
      by (auto simp add: touches_def p split: Option.bind_splits)
    with True show ?thesis by blast
  next
    case False
    with s have "some_list (\<lambda>field. do {
        b \<leftarrow> js_includes field x;
        Some (b \<or> strictEq field (JStr (''custom.'' @ p))) }) fs = Some False" by simp
    from some_list_False[OF this] have "\<forall>field \<in> set fs.
      do { b \<leftarrow> js_includes field x; Some (b \<or> strictEq field (JStr (''custom.'' @ p))) } = Some False"
      by blast
    then have "\<forall>field \<in> set fs. \<not> touches field x"
      by (auto simp add: touches_def p split: Option.bind_splits)
    with False show ?thesis by blast
  qed
qed

lemma conditionsTouched_char:
  "conditionsTouched fs cs = Some b \<Longrightarrow>
   b = (\<exists>c \<in> set cs. isFieldCondition c \<and> (\<exists>field \<in> set fs. touches field (fieldOf c)))"
proof (induction cs)
  case Nil
  then show ?case by simp
next
  case (Cons c cs)
  from Cons.prems obtain f fc hit where f: "getProp c ''field'' = Some f"
    and fc: "(if truthy f then do {
          ty \<leftarrow> getProp c ''type'';
          if nullish ty then Some False else js_includes ty (JStr ''field_'') }
        else Some False) = Some fc"
    and hit: "(if fc then fieldTouched fs f else Some False) = Some hit"
    and rest: "(if hit then Some True else conditionsTouched fs cs) = Some b"
    unfolding conditionsTouched.simps bind_eq_Some_conv by blast
  have fc': "fc = isFieldCondition c"
    using fc f by (cases fc) (auto simp add: isFieldCondition_def split: if_splits Option.bind_splits)
  have fo: "fieldOf c = f" by (simp add: fieldOf_def f)
  have h: "hit = (isFieldCondition c \<and> (\<exists>field \<in> set fs. touches field (fieldOf c)))"
  proof (cases fc)
    case True
    with hit have "fieldTouched fs f = Some hit" by simp
    from fieldTouched_char[OF this] True fc' fo show ?thesis by simp
  next
    case False
    with hit fc' show ?thesis by auto
  qed
  show ?case
  proof (cases hit)
    case True
    with rest h show ?thesis by auto
  next
    case False
    with rest have "conditionsTouched fs cs = Some b" by simp
    from Cons.IH[OF this] False h show ?thesis by auto
  qed
qed

lemma mappingsTouched_char:
  "mappingsTouched fs ks = Some b \<Longrightarrow>
   b = (\<exists>k \<in> set ks. \<exists>field \<in> set fs. touches field (JStr k))"
proof (induction ks)
  case Nil
  then show ?case by simp
next
  case (Cons k ks)
  from Cons.prems obtain hit where hit: "fieldTouched fs (JStr k) = Some hit"
    and rest: "(if hit then Some True else mappingsTouched fs ks) = Some b"
    unfolding mappingsTouched.simps bind_eq_Some_conv by blast
  note h = fieldTouched_char[OF hit]
  show ?case
  proof (cases hit)
    case True
    with rest h show ?thesis by auto
  next
    case False
    with rest have "mappingsTouched fs ks = Some b" by simp
    from Cons.IH[OF this] False h show ?thesis by auto
  qed
qed

lemma actionsTouched_char:
  "actionsTouched fs as = Some b \<Longrightarrow>
   b = (\<exists>x \<in> set (concat (map mappingKeys as)). \<exists>field \<in> set fs. touches field x)"
proof (induction as)
  case Nil
  then show ?case by simp
next
  case (Cons a as)
  from Cons.prems obtain fm hit where fm: "getProp a ''fieldMappings'' = Some fm"
    and hit: "(if truthy fm then mappingsTouched fs (entry_keys fm) else Some False) = Some hit"
    and rest: "(if hit then Some True else actionsTouched fs as) = Some b"
    unfolding actionsTouched.simps bind_eq_Some_conv by blast
  have h: "hit = (\<exists>x \<in> set (mappingKeys a). \<exists>field \<in> set fs. touches field x)"
  proof (cases "truthy fm")
    case True
    with hit have "mappingsTouched fs (entry_keys fm) = Some hit" by simp
    from mappingsTouched_char[OF this] True show ?thesis by (auto simp add: mappingKeys_def fm)
  next
    case False
    with hit show ?thesis by (auto simp add: mappingKeys_def fm)
  qed
  show ?case
  proof (cases hit)
    case True
    with rest h show ?thesis by auto
  next
    case False
    with rest have "actionsTouched fs as = Some b" by simp
    from Cons.IH[OF this] False h show ?thesis by auto
  qed
qed

lemma touched_append: "touched fs (xs @ ys) = (touched fs xs \<or> touched fs ys)"
  by (auto simp add: touched_def)

lemma touched_Nil [simp]: "\<not> touched fs []"
  by (simp add: touched_def)

lemma isWebhookRelevant_char:
  assumes auf: "getProp wd ''action_update_fields'' = Some (JArr fs)"
    and no: "JStr ''stage'' \<notin> set fs" "JStr ''stage_id'' \<notin> set fs" "JStr ''payments'' \<notin> set fs"
    and r: "isWebhookRelevant wd rule = Some b"
  shows "b = touched fs (referencedFields rule)"
proof -
  from r auf no have "do {
            crules \<leftarrow> optChain (conditions rule) (\<lambda>c. getProp c ''rules'');
            hit \<leftarrow> (if truthy crules then do {
                       cs \<leftarrow> js_iter crules;
                       conditionsTouched fs cs }
                     else Some False);
            if hit then Some True
            else do {
              alist \<leftarrow> optChain (actions rule) (\<lambda>a. getProp a ''list'');
              (if truthy alist then do {
                 as \<leftarrow> js_iter alist;
                 actionsTouched fs as }
               else Some False) } } = Some b"
    by (simp add: isWebhookRelevant_def)
  then obtain crules hit where cr: "optChain (conditions rule) (\<lambda>c. getProp c ''rules'') = Some crules"
    and hit: "(if truthy crules then do { cs \<leftarrow> js_iter crules; conditionsTouched fs cs }
               else Some False) = Some hit"
    and rest: "(if hit then Some True
            else do {
              alist \<leftarrow> optChain (actions rule) (\<lambda>a. getProp a ''list'');
              (if truthy alist then do {
                 as \<leftarrow> js_iter alist;
                 actionsTouched fs as }
               else Some False) }) = Some b"
    unfolding bind_eq_Some_conv by blast
  have h: "hit = touched fs (conditionFields rule)"
  proof (cases "truthy crules")
    case True
    with hit obtain cs where cs: "js_iter crules = Some cs" and ct: "conditionsTouched fs cs = Some hit"
      by (auto simp add: bind_eq_Some_conv)
    from conditionsTouched_char[OF ct] show ?thesis
      by (auto simp add: conditionFields_def cr True cs touched_def)
  next
    case False
    with hit show ?thesis by (auto simp add: conditionFields_def cr)
  qed
  show ?thesis
  proof (cases hit)
    case True
    with rest h show ?thesis by (auto simp add: referencedFields_def touched_append)
  next
    case False
    with rest obtain alist where al: "optChain (actions rule) (\<lambda>a. getProp a ''list'') = Some alist"
      and m: "(if truthy alist then do { as \<leftarrow> js_iter alist; actionsTouched fs as }
               else Some False) = Some b"
      by (auto simp add: bind_eq_Some_conv)
    have "b = touched fs (mappedFields rule)"
    proof (cases "truthy alist")
      case True
      with m obtain as where as: "js_iter alist = Some as" and at: "actionsTouched fs as = Some b"
        by (auto simp add: bind_eq_Some_conv)
      from actionsTouched_char[OF at] show ?thesis
        by (auto simp add: mappedFields_def al True as touched_def)
    next
      case False
      with m show ?thesis by (auto simp add: mappedFields_def al)
    qed
    with False h show ?thesis by (simp add: referencedFields_def touched_append)
  qed
qed

lemma isWebhookRelevant_no_list:
  assumes "getProp wd ''action_update_fields'' = Some v" "\<forall>fs. v \<noteq> JArr fs"
  shows "isWebhookRelevant wd rule = Some True"
  using assms by (cases v) (simp_all add: isWebhookRelevant_def)

lemma isWebhookRelevant_must_process:
  assumes "getProp wd ''action_update_fields'' = Some (JArr fs)"
    "JStr ''stage'' \<in> set fs \<or> JStr ''stage_id'' \<in> set fs \<or> JStr ''payments'' \<in> set fs"
  shows "isWebhookRelevant wd rule = Some True"
  using assms by (auto simp add: isWebhookRelevant_def)

lemma unlogged_logAt [simp]: "unlogged (logAt l u m w) = unlogged w"
  by (simp add: unlogged_def logAt_def)

lemma unlogged_eqD: "unlogged w' = unlogged w \<Longrightarrow> w' = w\<lparr>logs := logs w'\<rparr>"
  by (cases w, cases w') (simp add: unlogged_def)

lemma unlogged_relog [simp]: "unlogged (w\<lparr>logs := L\<rparr>) = unlogged w"
  by (simp add: unlogged_def)

lemma actionAttempt_relog:
  "fst (actionAttempt e ev uid a (w\<lparr>logs := L\<rparr>)) = fst (actionAttempt e ev uid a w)"
  "unlogged (snd (actionAttempt e ev uid a (w\<lparr>logs := L\<rparr>))) = unlogged (snd (actionAttempt e ev uid a w))"
  by (simp_all add: actionAttempt_def Let_def logAt_def callAdapter_def unlogged_def split: option.splits)

lemma actionAttempt_unlogged:
  assumes "unlogged w' = unlogged w"
  shows "fst (actionAttempt e ev uid a w') = fst (actionAttempt e ev uid a w)"
    and "unlogged (snd (actionAttempt e ev uid a w')) = unlogged (snd (actionAttempt e ev uid a w))"
  using actionAttempt_relog[where e = e and ev = ev and uid = uid and a = a and w = w and L = "logs w'"]
    unlogged_eqD[OF assms] by simp_all

lemma runAction_unlogged:
  assumes "unlogged w' = unlogged w"
  shows "fst (runAction e ev uid a w') = fst (runAction e ev uid a w)
       \<and> unlogged (snd (runAction e ev uid a w')) = unlogged (snd (runAction e ev uid a w))"
proof -
  obtain x1 w1 where a1: "actionAttempt e ev uid a w = (x1, w1)" by (cases "actionAttempt e ev uid a w")
  obtain x2 w2 where a2: "actionAttempt e ev uid a w' = (x2, w2)" by (cases "actionAttempt e ev uid a w'")
  from actionAttempt_unlogged[OF assms, of e ev uid a] a1 a2
  have "x2 = x1" "unlogged w2 = unlogged w1" by simp_all
  then show ?thesis by (simp add: runAction_def a1 a2 split: option.splits)
qed

lemma runActions_unlogged:
  "unlogged w' = unlogged w \<Longrightarrow>
   fst (runActions e ev uid as w') = fst (runActions e ev uid as w)
   \<and> unlogged (snd (runActions e ev uid as w')) = unlogged (snd (runActions e ev uid as w))"
proof (induction as arbitrary: w w')
  case Nil
  then show ?case by simp
next
  case (Cons a as)
  obtain x1 w1 where a1: "runAction e ev uid a w = (x1, w1)" by (cases "runAction e ev uid a w")
  obtain x2 w2 where a2: "runAction e ev uid a w' = (x2, w2)" by (cases "runAction e ev uid a w'")
  from runAction_unlogged[OF Cons.prems, of e ev uid a] a1 a2
  have eq: "x2 = x1" "unlogged w2 = unlogged w1" by simp_all
  show ?case
  proof (cases x1)
    case None
    with eq(1) a1 a2 Cons.IH[OF eq(2)] show ?thesis by simp
  next
    case (Some x)
    with eq a1 a2 show ?thesis by simp
  qed
qed

lemma executeActions_unlogged:
  assumes "unlogged w' = unlogged w"
  shows "unlogged (snd (executeActions e a entries w')) = unlogged (snd (executeActions e a entries w))"
proof -
  define uid where "uid = (case map_of entries ''userId'' of Some u \<Rightarrow> u | None \<Rightarrow> JUndef)"
  define attempt where "attempt = (\<lambda>w.
            (if \<not> truthy a then (None, w)
             else case getProp a ''list'' of
                 None \<Rightarrow> (Some TypeError, w)
               | Some l \<Rightarrow>
                   if \<not> truthy l then (None, w)
                   else (case js_iter l of
                       None \<Rightarrow> (Some TypeError, w)
                     | Some as \<Rightarrow> runActions e (JObj entries) uid as w)))"
  have att: "fst (attempt w') = fst (attempt w) \<and> unlogged (snd (attempt w')) = unlogged (snd (attempt w))"
    using assms runActions_unlogged[OF assms, of e "JObj entries" uid]
    by (simp add: attempt_def split: option.splits)
  have ex: "\<And>w. executeActions e a entries w =
      (case attempt w of (None, w') \<Rightarrow> (None, w')
       | (Some x, w') \<Rightarrow> (None, logAt LError uid (ActionsError x) w'))"
    unfolding executeActions_def Let_def uid_def attempt_def by (rule refl)
  obtain x1 w1 where a1: "attempt w = (x1, w1)" by (cases "attempt w")
  obtain x2 w2 where a2: "attempt w' = (x2, w2)" by (cases "attempt w'")
  from att a1 a2 have "x2 = x1" "unlogged w2 = unlogged w1" by simp_all
  then show ?thesis by (simp add: ex a1 a2 split: option.splits)
qed

lemma cache_exists_unlogged:
  assumes "unlogged w' = unlogged w"
  shows "cache_exists w' k = cache_exists w k"
proof -
  from assms have "clock (unlogged w') = clock (unlogged w)"
    "redisUp (unlogged w') = redisUp (unlogged w)"
    "redisStore (unlogged w') = redisStore (unlogged w)" by simp_all
  then have "clock w' = clock w" "redisUp w' = redisUp w" "redisStore w' = redisStore w"
    by (simp_all add: unlogged_def)
  then show ?thesis by (rule cache_exists_cong)
qed

lemma setWithTTL_relog:
  "setWithTTL key (dedupMarker (w\<lparr>logs := L\<rparr>)) t (w\<lparr>logs := L\<rparr>)
     = (setWithTTL key (dedupMarker w) t w)\<lparr>logs := L\<rparr>"
  by (simp add: setWithTTL_def redis_setex_def dedupMarker_def)

lemma lpDispatch_unlogged:
  assumes "unlogged w' = unlogged w"
  shows "unlogged (lpDispatch e u wd r key w') = unlogged (lpDispatch e u wd r key w)"
proof -
  let ?w2 = "snd (executeActions e (actions r) (lpEventEntries u wd)
                     (logAt LInfo (JStr u) (LpRuleApplicable (ruleId r)) w))"
  let ?w2' = "snd (executeActions e (actions r) (lpEventEntries u wd)
                     (logAt LInfo (JStr u) (LpRuleApplicable (ruleId r)) w'))"
  have "unlogged ?w2' = unlogged ?w2"
    by (rule executeActions_unlogged) (simp add: assms)
  from unlogged_eqD[OF this] obtain L where L: "?w2' = ?w2\<lparr>logs := L\<rparr>" ..
  show ?thesis
    unfolding lpDispatch_def Let_def L setWithTTL_relog
    by (cases "incrementFails e (ruleId r)") (simp_all add: unlogged_def logAt_def)
qed

lemma lpRuleStep_unlogged:
  assumes "unlogged w' = unlogged w"
  shows "unlogged (lpRuleStep e u wd r w') = unlogged (lpRuleStep e u wd r w)"
  using assms cache_exists_unlogged[OF assms] lpDispatch_unlogged[OF assms]
  by (simp add: lpRuleStep_cases split: option.splits bool.splits)

lemma lpRuleLoop_unlogged:
  "unlogged w' = unlogged w \<Longrightarrow>
   unlogged (lpRuleLoop e u wd rs w') = unlogged (lpRuleLoop e u wd rs w)"
proof (induction rs arbitrary: w w')
  case Nil
  then show ?case by simp
next
  case (Cons r rs)
  show ?case using Cons.IH[OF lpRuleStep_unlogged[OF Cons.prems]] by simp
qed

lemma irrelevant_step:
  assumes "isWebhookRelevant wd r = Some False"
  shows "unlogged (lpRuleStep e u wd r w) = unlogged w"
  using assms by (simp add: lpRuleStep_cases split: option.splits)

lemma irrelevant_rule_dropped:
  assumes "isWebhookRelevant wd r = Some False"
  shows "unlogged (lpRuleLoop e u wd (pre @ r # post) w) = unlogged (lpRuleLoop e u wd (pre @ post) w)"
proof -
  have "unlogged (lpRuleStep e u wd r (lpRuleLoop e u wd pre w)) = unlogged (lpRuleLoop e u wd pre w)"
    using assms by (rule irrelevant_step)
  from lpRuleLoop_unlogged[OF this, of e u wd post] show ?thesis
    by (simp add: lpRuleLoop_append del: lpRuleLoop_Cons add: lpRuleLoop_Cons[of e u wd r post])
qed

lemma not_relevant_step:
  assumes "isWebhookRelevant wd r \<noteq> Some True"
  shows "unlogged (lpRuleStep e u wd r w) = unlogged w"
  using assms by (simp add: lpRuleStep_cases split: option.splits bool.splits)

lemma referenced_examples:
  "referencedFields nameRule = [JStr ''name'']" "referencedFields rule7 = []"
  "referencedFields mappedRule = [JStr ''email'']"
  by (simp_all add: referencedFields_def conditionFields_def mappedFields_def nameRule_def
      mappedRule_def rule7_def rule8_def syncToAmo_def statusIs_def optChain_def nullish_def
      js_iter_def isFieldCondition_def js_includes_def fieldOf_def mappingKeys_def entry_keys_def
      sublist_Cons_right)

lemma update_fields:
  "getProp companyUpdate ''action_update_fields'' = Some (JArr [JStr ''company_name''])"
  "getProp emailUpdate ''action_update_fields'' = Some (JArr [JStr ''email''])"
  "getProp stageUpdate ''action_update_fields'' = Some (JArr [JStr ''stage_id''])"
  "getProp stage142 ''action_update_fields'' = Some JUndef"
  by (simp_all add: companyUpdate_def emailUpdate_def stageUpdate_def stage142_def)

lemma relevant_examples:
  "isWebhookRelevant companyUpdate nameRule = Some True"
  "isWebhookRelevant emailUpdate rule7 = Some False"
  "isWebhookRelevant emailUpdate mappedRule = Some True"
  by (simp_all add: isWebhookRelevant_def update_fields nameRule_def mappedRule_def rule7_def
      rule8_def syncToAmo_def statusIs_def optChain_def nullish_def js_iter_def fieldTouched_def
      js_includes_def entry_keys_def sublist_Cons_right)

text \<open>
  Claim C6 as stated fails: the only updated field is \<open>company_name\<close>, the only field the
  rule refers to is \<open>name\<close>, so the two lists have no field in common; the filter still
  passes the rule, because the name \<open>name\<close> occurs inside \<open>company_name\<close>.
\<close>

theorem relevance_substring_counterexample:
  "getProp companyUpdate ''action_update_fields'' = Some (JArr [JStr ''company_name''])
   \<and> referencedFields nameRule = [JStr ''name'']
   \<and> \<not> specIntersects [JStr ''company_name''] (referencedFields nameRule)
   \<and> isWebhookRelevant companyUpdate nameRule = Some True"
  by (simp add: update_fields referenced_examples relevant_examples specIntersects_def)

text \<open>
  Claim C6, as the code has it. Without a list \<open>action_update_fields\<close> the rule is
  relevant; so it is when the list holds \<open>stage\<close>, \<open>stage_id\<close> or \<open>payments\<close>, whatever
  the rule. Otherwise the answer of the filter, when it gives one, is whether some
  updated field contains, or is \<open>custom.\<close> followed by, a field the rule refers to in a
  \<open>field_\<close> condition or in the field mappings of an action. A rule that does not pass
  the filter changes nothing but the log; when it has passed the condition and dedup
  checks the log entry says that it is not relevant; and the loop leaves the world, the
  log apart, as if the skipped rule were not in the list.
\<close>

theorem relevance_filter:
  "(getProp wd ''action_update_fields'' = Some v \<and> (\<forall>xs. v \<noteq> JArr xs) \<longrightarrow>
      isWebhookRelevant wd rule = Some True)
   \<and> (getProp wd ''action_update_fields'' = Some (JArr fs)
        \<and> (JStr ''stage'' \<in> set fs \<or> JStr ''stage_id'' \<in> set fs \<or> JStr ''payments'' \<in> set fs) \<longrightarrow>
      isWebhookRelevant wd rule = Some True)
   \<and> (getProp wd ''action_update_fields'' = Some (JArr fs)
        \<and> JStr ''stage'' \<notin> set fs \<and> JStr ''stage_id'' \<notin> set fs \<and> JStr ''payments'' \<notin> set fs
        \<and> isWebhookRelevant wd rule = Some b \<longrightarrow>
      b = touched fs (referencedFields rule))
   \<and> (isWebhookRelevant wd rule \<noteq> Some True \<longrightarrow>
      unlogged (lpRuleStep e u wd rule w) = unlogged w)
   \<and> (checkConditions (rt e) (conditions rule) wd \<and> lpDedupKey u wd rule = Some key
        \<and> \<not> cache_exists w key \<and> isWebhookRelevant wd rule = Some False \<longrightarrow>
      lpRuleStep e u wd rule w = logAt LInfo (JStr u) (LpRuleNotRelevant (ruleId rule)) w)
   \<and> (isWebhookRelevant wd rule = Some False \<longrightarrow>
      unlogged (lpRuleLoop e u wd (pre @ rule # post) w)
        = unlogged (lpRuleLoop e u wd (pre @ post) w))"
proof -
  have c1: "getProp wd ''action_update_fields'' = Some v \<and> (\<forall>xs. v \<noteq> JArr xs) \<longrightarrow>
      isWebhookRelevant wd rule = Some True"
    using isWebhookRelevant_no_list by blast
  have c2: "getProp wd ''action_update_fields'' = Some (JArr fs)
        \<and> (JStr ''stage'' \<in> set fs \<or> JStr ''stage_id'' \<in> set fs \<or> JStr ''payments'' \<in> set fs) \<longrightarrow>
      isWebhookRelevant wd rule = Some True"
    using isWebhookRelevant_must_process by blast
  have c3: "getProp wd ''action_update_fields'' = Some (JArr fs)
        \<and> JStr ''stage'' \<notin> set fs \<and> JStr ''stage_id'' \<notin> set fs \<and> JStr ''payments'' \<notin> set fs
        \<and> isWebhookRelevant wd rule = Some b \<longrightarrow>
      b = touched fs (referencedFields rule)"
    using isWebhookRelevant_char by blast
  have c4: "isWebhookRelevant wd rule \<noteq> Some True \<longrightarrow>
      unlogged (lpRuleStep e u wd rule w) = unlogged w"
    using not_relevant_step by blast
  have c5: "checkConditions (rt e) (conditions rule) wd \<and> lpDedupKey u wd rule = Some key
        \<and> \<not> cache_exists w key \<and> isWebhookRelevant wd rule = Some False \<longrightarrow>
      lpRuleStep e u wd rule w = logAt LInfo (JStr u) (LpRuleNotRelevant (ruleId rule)) w"
    by (simp add: lpRuleStep_cases)
  have c6: "isWebhookRelevant wd rule = Some False \<longrightarrow>
      unlogged (lpRuleLoop e u wd (pre @ rule # post) w)
        = unlogged (lpRuleLoop e u wd (pre @ post) w)"
    using irrelevant_rule_dropped by blast
  show ?thesis
    by (intro conjI) (fact c1, fact c2, fact c3, fact c4, fact c5, fact c6)
qed

lemma status_eval_email:
  "evalCondition exampleRuntime emailUpdate (statusIs v) = Some (JBool (''142'' = v))"
  by (simp add: evalCondition_def statusIs_def emailUpdate_def optChain_def nullish_def
      sameString_def show_int_small)

lemma email_facts:
  "checkConditions exampleRuntime (conditions rule7) emailUpdate"
  "checkConditions exampleRuntime (conditions mappedRule) emailUpdate"
  "lpDedupKey ''u1'' emailUpdate rule7 = Some ''webhook:u1:42:7:default''"
  "lpDedupKey ''u1'' emailUpdate mappedRule = Some ''webhook:u1:42:8:default''"
  "ruleId mappedRule = 8"
  by (simp_all add: rule7_def rule8_def mappedRule_def cc_array status_eval_email lpDedupKey_def
      generateWebhookKey_default show_int_small)
    (simp_all add: emailUpdate_def generateWebhookKey_default show_int_small)

text \<open>
  Claim C6 at concrete events: no list of updated fields; a list holding \<open>stage_id\<close>; the
  field \<open>company_name\<close> against a rule on \<open>name\<close>; and the field \<open>email\<close>, for which rule 7
  (no field referred to) is skipped while the rule after it, which maps \<open>email\<close>, is
  dispatched and counted as if rule 7 were absent.
\<close>

theorem relevance_filter_witness:
  "isWebhookRelevant stage142 rule7 = Some True
   \<and> isWebhookRelevant stageUpdate nameRule = Some True
   \<and> isWebhookRelevant companyUpdate nameRule = Some True
   \<and> touched [JStr ''company_name''] (referencedFields nameRule)
   \<and> isWebhookRelevant emailUpdate rule7 = Some False
   \<and> \<not> touched [JStr ''email''] (referencedFields rule7)
   \<and> lpRuleStep brokenEnv ''u1'' emailUpdate rule7 world0
        = logAt LInfo (JStr ''u1'') (LpRuleNotRelevant 7) world0
   \<and> unlogged (lpRuleLoop brokenEnv ''u1'' emailUpdate [rule7, mappedRule] world0)
        = unlogged (lpRuleLoop brokenEnv ''u1'' emailUpdate [mappedRule] world0)
   \<and> execCount (lpRuleLoop brokenEnv ''u1'' emailUpdate [rule7, mappedRule] world0) 7 = 0
   \<and> execCount (lpRuleLoop brokenEnv ''u1'' emailUpdate [rule7, mappedRule] world0) 8 = 1"
proof -
  note t1 = relevance_filter[where wd = stage142 and rule = rule7 and v = JUndef]
  note t2 = relevance_filter[where wd = stageUpdate and rule = nameRule and fs = "[JStr ''stage_id'']"]
  note t3 = relevance_filter[where wd = companyUpdate and rule = nameRule
      and fs = "[JStr ''company_name'']" and b = True]
  note t4 = relevance_filter[where wd = emailUpdate and rule = rule7 and fs = "[JStr ''email'']"
      and b = False and e = brokenEnv and u = "''u1''" and w = world0
      and key = "''webhook:u1:42:7:default''" and pre = "[]" and post = "[mappedRule]"]
  have c1: "isWebhookRelevant stage142 rule7 = Some True"
    using t1 by (simp add: update_fields)
  have c2: "isWebhookRelevant stageUpdate nameRule = Some True"
    using t2 by (simp add: update_fields)
  have c3: "isWebhookRelevant companyUpdate nameRule = Some True"
    by (rule relevant_examples)
  have c4: "touched [JStr ''company_name''] (referencedFields nameRule)"
    using t3 c3 by (simp add: update_fields)
  have c5: "isWebhookRelevant emailUpdate rule7 = Some False"
    by (rule relevant_examples)
  have c6: "\<not> touched [JStr ''email''] (referencedFields rule7)"
    using t4 c5 by (simp add: update_fields)
  have c7: "lpRuleStep brokenEnv ''u1'' emailUpdate rule7 world0
        = logAt LInfo (JStr ''u1'') (LpRuleNotRelevant 7) world0"
    using t4 c5 by (simp add: email_facts env_fields world0_fields rule_ids)
  have c8: "unlogged (lpRuleLoop brokenEnv ''u1'' emailUpdate [rule7, mappedRule] world0)
        = unlogged (lpRuleLoop brokenEnv ''u1'' emailUpdate [mappedRule] world0)"
    using t4 c5 by (simp del: lpRuleLoop_Cons)
  have d: "lpRuleStep brokenEnv ''u1'' emailUpdate mappedRule world0
      = lpDispatch brokenEnv ''u1'' emailUpdate mappedRule ''webhook:u1:42:8:default'' world0"
    by (rule lpRuleStep_dispatch)
      (simp_all add: lpDispatches_def email_facts env_fields world0_fields relevant_examples)
  have ex: "execCount (lpRuleLoop brokenEnv ''u1'' emailUpdate [rule7, mappedRule] world0)
      = execCount (lpRuleLoop brokenEnv ''u1'' emailUpdate [mappedRule] world0)"
    using arg_cong[OF c8, of execCount] by (simp add: unlogged_def del: lpRuleLoop_Cons)
  have c9: "execCount (lpRuleLoop brokenEnv ''u1'' emailUpdate [rule7, mappedRule] world0) 7 = 0"
    unfolding ex by (simp add: d lpDispatch_execCount env_fields email_facts world0_fields)
  have c10: "execCount (lpRuleLoop brokenEnv ''u1'' emailUpdate [rule7, mappedRule] world0) 8 = 1"
    unfolding ex by (simp add: d lpDispatch_execCount env_fields email_facts world0_fields)
  show ?thesis
    by (intro conjI) (fact c1, fact c2, fact c3, fact c4, fact c5, fact c6, fact c7, fact c8,
        fact c9, fact c10)
qed

section \<open>Operators of the condition evaluator\<close>

lemma map_list_None_iff: "map_list f cs = None \<longleftrightarrow> (\<exists>c \<in> set cs. f c = None)"
  by (induction cs) (auto split: option.splits)

lemma cc_operator_exact:
  assumes "map_of kvs ''rules'' = Some (JArr cs)"
  shows "checkConditions r (JObj kvs) ev =
     (if map_of kvs ''operator'' = Some (JStr ''OR'')
      then (\<forall>c \<in> set cs. evalCondition r ev c \<noteq> None) \<and> (\<exists>c \<in> set cs. holds r ev c)
      else (\<forall>c \<in> set cs. holds r ev c))"
proof (cases "\<forall>c \<in> set cs. evalCondition r ev c \<noteq> None")
  case True
  with cc_operator[OF assms True] show ?thesis by simp
next
  case False
  then have n: "map_list (evalCondition r ev) cs = None" by (simp add: map_list_None_iff)
  from False obtain c where "c \<in> set cs" "\<not> holds r ev c" by (auto simp add: holds_def)
  with assms n False show ?thesis by (auto simp add: cc_array)
qed

lemma numeric_eval:
  "evalCondition exampleRuntime numericEvent (statusIs v) = Some (JBool (''142'' = v))"
  "evalCondition exampleRuntime numericEvent containsX = None"
  by (simp_all add: evalCondition_def statusIs_def numericEvent_def containsX_def optChain_def
      nullish_def sameString_def show_int_small amoFieldValue_def lpFieldValue_def js_find_def
      exampleRuntime_def containsValue_def js_includes_def)

text \<open>
  Claim C5 as stated fails: the first condition of the list evaluates to \<open>true\<close>, the
  second throws, and \<open>checkConditions\<close> with operator \<open>OR\<close> returns \<open>false\<close>, because the
  exception leaves \<open>map\<close> before \<open>some\<close> is reached and the \<open>catch\<close> answers \<open>false\<close>.
\<close>

theorem checkConditions_or_throwing_counterexample:
  "evalCondition exampleRuntime numericEvent (statusIs ''142'') = Some (JBool True)
   \<and> evalCondition exampleRuntime numericEvent containsX = None
   \<and> checkConditions exampleRuntime
        (JObj [(''operator'', JStr ''OR''), (''rules'', JArr [statusIs ''142'', containsX])])
        numericEvent = False"
  by (simp add: numeric_eval cc_array)

text \<open>
  Claim C5, as the code has it. For every condition list, \<open>checkConditions\<close> with
  operator \<open>OR\<close> is true iff no condition of the list throws and some condition
  evaluates to a true value; with \<open>AND\<close> it is true iff every condition evaluates to a
  true value; without an operator, and with any operator other than \<open>OR\<close>, it behaves
  as \<open>AND\<close>.
\<close>

theorem checkConditions_operator_semantics:
  assumes "map_of kvs ''rules'' = Some (JArr cs)"
  shows "(map_of kvs ''operator'' = Some (JStr ''OR'')
            \<longrightarrow> checkConditions r (JObj kvs) ev
                  = ((\<forall>c \<in> set cs. evalCondition r ev c \<noteq> None) \<and> (\<exists>c \<in> set cs. holds r ev c)))
       \<and> (map_of kvs ''operator'' = Some (JStr ''AND'')
            \<longrightarrow> checkConditions r (JObj kvs) ev = (\<forall>c \<in> set cs. holds r ev c))
       \<and> (map_of kvs ''operator'' = None
            \<longrightarrow> checkConditions r (JObj kvs) ev = (\<forall>c \<in> set cs. holds r ev c))
       \<and> (map_of kvs ''operator'' \<noteq> Some (JStr ''OR'')
            \<longrightarrow> checkConditions r (JObj kvs) ev = (\<forall>c \<in> set cs. holds r ev c))"
  using cc_operator_exact[OF assms] by auto

text \<open>
  \<open>OR\<close> over the results \<open>[false, true]\<close> yields \<open>true\<close>; \<open>AND\<close> and the omitted
  operator over the same results yield \<open>false\<close>; and a list with a true condition and a
  throwing one yields \<open>false\<close> under \<open>OR\<close> and under \<open>AND\<close>.
\<close>

theorem checkConditions_operator_semantics_witness:
  "evalCondition exampleRuntime stage142 (statusIs ''999'') = Some (JBool False)
   \<and> evalCondition exampleRuntime stage142 (statusIs ''142'') = Some (JBool True)
   \<and> checkConditions exampleRuntime
        (JObj [(''operator'', JStr ''OR''), (''rules'', JArr [statusIs ''999'', statusIs ''142''])])
        stage142 = True
   \<and> checkConditions exampleRuntime
        (JObj [(''operator'', JStr ''AND''), (''rules'', JArr [statusIs ''999'', statusIs ''142''])])
        stage142 = False
   \<and> checkConditions exampleRuntime
        (JObj [(''rules'', JArr [statusIs ''999'', statusIs ''142''])]) stage142 = False
   \<and> checkConditions exampleRuntime
        (JObj [(''operator'', JStr ''AND''), (''rules'', JArr [statusIs ''142'', statusIs ''142''])])
        stage142 = True
   \<and> checkConditions exampleRuntime
        (JObj [(''operator'', JStr ''OR''), (''rules'', JArr [statusIs ''142'', containsX])])
        numericEvent = False
   \<and> checkConditions exampleRuntime
        (JObj [(''operator'', JStr ''AND''), (''rules'', JArr [statusIs ''142'', containsX])])
        numericEvent = False"
proof -
  have h: "holds exampleRuntime stage142 (statusIs ''142'')"
    "\<not> holds exampleRuntime stage142 (statusIs ''999'')"
    "holds exampleRuntime numericEvent (statusIs ''142'')"
    "\<not> holds exampleRuntime numericEvent containsX"
    by (simp_all add: holds_def status_eval numeric_eval)
  have a: "checkConditions exampleRuntime
        (JObj [(''operator'', JStr ''OR''), (''rules'', JArr [statusIs ''999'', statusIs ''142''])])
        stage142 = True"
    using checkConditions_operator_semantics[of
        "[(''operator'', JStr ''OR''), (''rules'', JArr [statusIs ''999'', statusIs ''142''])]"
        "[statusIs ''999'', statusIs ''142'']" exampleRuntime stage142] h
    by (simp add: status_eval)
  have b: "checkConditions exampleRuntime
        (JObj [(''operator'', JStr ''AND''), (''rules'', JArr [statusIs ''999'', statusIs ''142''])])
        stage142 = False"
    using checkConditions_operator_semantics[of
        "[(''operator'', JStr ''AND''), (''rules'', JArr [statusIs ''999'', statusIs ''142''])]"
        "[statusIs ''999'', statusIs ''142'']" exampleRuntime stage142] h
    by simp
  have c: "checkConditions exampleRuntime
        (JObj [(''rules'', JArr [statusIs ''999'', statusIs ''142''])]) stage142 = False"
    using checkConditions_operator_semantics[of
        "[(''rules'', JArr [statusIs ''999'', statusIs ''142''])]"
        "[statusIs ''999'', statusIs ''142'']" exampleRuntime stage142] h
    by simp
  have d: "checkConditions exampleRuntime
        (JObj [(''operator'', JStr ''AND''), (''rules'', JArr [statusIs ''142'', statusIs ''142''])])
        stage142 = True"
    using checkConditions_operator_semantics[of
        "[(''operator'', JStr ''AND''), (''rules'', JArr [statusIs ''142'', statusIs ''142''])]"
        "[statusIs ''142'', statusIs ''142'']" exampleRuntime stage142] h
    by simp
  have e: "checkConditions exampleRuntime
        (JObj [(''operator'', JStr ''OR''), (''rules'', JArr [statusIs ''142'', containsX])])
        numericEvent = False"
    using checkConditions_operator_semantics[of
        "[(''operator'', JStr ''OR''), (''rules'', JArr [statusIs ''142'', containsX])]"
        "[statusIs ''142'', containsX]" exampleRuntime numericEvent] h
    by (simp add: numeric_eval)
  have f: "checkConditions exampleRuntime
        (JObj [(''operator'', JStr ''AND''), (''rules'', JArr [statusIs ''142'', containsX])])
        numericEvent = False"
    using checkConditions_operator_semantics[of
        "[(''operator'', JStr ''AND''), (''rules'', JArr [statusIs ''142'', containsX])]"
        "[statusIs ''142'', containsX]" exampleRuntime numericEvent] h
    by simp
  from a b c d e f show ?thesis by (simp add: status_eval)
qed

section \<open>Isolation of rules and the adapter calls\<close>

lemma plannedCalls_simps [simp]:
  "plannedCalls r uid ev [] = []"
  "plannedCalls r uid ev (a # as)
     = (case plannedCall r uid ev a of None \<Rightarrow> [] | Some c \<Rightarrow> [c]) @ plannedCalls r uid ev as"
  by (simp_all add: plannedCalls_def)

lemma actionAttempt_calls:
  assumes "actionTypeText a \<noteq> None"
  shows "syncCalls (snd (actionAttempt e ev uid a w))
           = syncCalls w @ (case plannedCall (rt e) uid ev a of None \<Rightarrow> [] | Some c \<Rightarrow> [c])"
    and "plannedCall (rt e) uid ev a = Some c \<Longrightarrow> fst (actionAttempt e ev uid a w) = syncFails e c"
  using assms
  by (auto simp add: actionAttempt_def plannedCall_def callAdapter_def Let_def split: option.splits)

lemma runAction_calls:
  assumes "actionTypeText a \<noteq> None"
  shows "fst (runAction e ev uid a w) = None"
    and "syncCalls (snd (runAction e ev uid a w))
           = syncCalls w @ (case plannedCall (rt e) uid ev a of None \<Rightarrow> [] | Some c \<Rightarrow> [c])"
proof -
  obtain x w' where a: "actionAttempt e ev uid a w = (x, w')" by (cases "actionAttempt e ev uid a w")
  with actionAttempt_calls(1)[OF assms, of e ev uid w]
  have s: "syncCalls w' = syncCalls w @ (case plannedCall (rt e) uid ev a of None \<Rightarrow> [] | Some c \<Rightarrow> [c])"
    by simp
  from assms a show "fst (runAction e ev uid a w) = None"
    by (cases x) (auto simp add: runAction_def)
  from assms a s show "syncCalls (snd (runAction e ev uid a w))
           = syncCalls w @ (case plannedCall (rt e) uid ev a of None \<Rightarrow> [] | Some c \<Rightarrow> [c])"
    by (cases x) (auto simp add: runAction_def)
qed

lemma runActions_calls:
  "\<forall>a \<in> set as. actionTypeText a \<noteq> None \<Longrightarrow>
   fst (runActions e ev uid as w) = None
   \<and> syncCalls (snd (runActions e ev uid as w)) = syncCalls w @ plannedCalls (rt e) uid ev as"
proof (induction as arbitrary: w)
  case Nil
  show ?case by simp
next
  case (Cons a as)
  then have ty: "actionTypeText a \<noteq> None" and rest: "\<forall>a \<in> set as. actionTypeText a \<noteq> None"
    by simp_all
  obtain w' where r: "runAction e ev uid a w = (None, w')"
    using runAction_calls(1)[OF ty, of e ev uid w] by (cases "runAction e ev uid a w") simp
  with runAction_calls(2)[OF ty, of e ev uid w]
  have s: "syncCalls w' = syncCalls w @ (case plannedCall (rt e) uid ev a of None \<Rightarrow> [] | Some c \<Rightarrow> [c])"
    by simp
  from Cons.IH[OF rest, of w'] r s show ?case by simp
qed

lemma executeActions_calls:
  assumes "\<forall>a \<in> set (actionList acts). actionTypeText a \<noteq> None"
  shows "syncCalls (snd (executeActions e acts entries w))
           = syncCalls w @ plannedCalls (rt e) (entryUserId entries) (JObj entries) (actionList acts)"
proof (cases "truthy acts")
  case False
  then show ?thesis by (simp add: executeActions_def actionList_def)
next
  case True
  then have "getProp acts ''list'' \<noteq> None"
    by (cases acts) (simp_all add: getProp_def split: option.splits)
  then obtain l where l: "getProp acts ''list'' = Some l" by blast
  show ?thesis
  proof (cases "truthy l")
    case False
    with True l show ?thesis by (simp add: executeActions_def actionList_def)
  next
    case tl: True
    show ?thesis
    proof (cases "js_iter l")
      case None
      with True l tl show ?thesis by (simp add: executeActions_def actionList_def)
    next
      case (Some as)
      with True l tl have al: "actionList acts = as" by (simp add: actionList_def)
      from runActions_calls[of as e "JObj entries" "entryUserId entries" w] assms al
      obtain w' where r: "runActions e (JObj entries) (entryUserId entries) as w = (None, w')"
        and s: "syncCalls w' = syncCalls w @ plannedCalls (rt e) (entryUserId entries) (JObj entries) as"
        by (cases "runActions e (JObj entries) (entryUserId entries) as w") auto
      from True l tl Some r s show ?thesis
        by (simp add: executeActions_def al entryUserId_def)
    qed
  qed
qed

lemma lpEntries_userId: "entryUserId (lpEventEntries u wd) = JStr u"
proof -
  have "map_of (setEntry ''userId'' (JStr u) kvs) ''userId'' = Some (JStr u)" for kvs
  proof (cases "''userId'' \<in> set (map fst kvs)")
    case False
    then have "map_of kvs ''userId'' = None" by (simp add: map_of_eq_None_iff)
    with False show ?thesis by (simp add: setEntry_def map_add_def)
  next
    case True
    have "k \<in> set (map fst xs) \<Longrightarrow>
        map_of (map (\<lambda>kv. if fst kv = k then (k, v) else kv) xs) k = Some v" for k v and xs :: "(string \<times> json) list"
      by (induction xs) auto
    with True show ?thesis by (simp add: setEntry_def)
  qed
  then show ?thesis by (simp add: entryUserId_def lpEventEntries_def)
qed

lemma amoEntries_userId: "entryUserId (amoEventEntries u leadId ld cds pl) = JStr u"
  by (simp add: entryUserId_def amoEventEntries_def)

lemma lpDispatch_calls:
  assumes "\<forall>a \<in> set (actionList (actions r)). actionTypeText a \<noteq> None"
  shows "syncCalls (lpDispatch e u wd r key w)
           = syncCalls w @ plannedCalls (rt e) (JStr u) (JObj (lpEventEntries u wd)) (actionList (actions r))"
  using executeActions_calls[OF assms, of e "lpEventEntries u wd"]
  by (simp add: lpDispatch_syncCalls lpEntries_userId)

lemma amoDispatch_syncCalls:
  "syncCalls (amoDispatch e u ev r key w)
     = syncCalls (snd (executeActions e (actions r) ev
          (logAt LInfo (JStr u) (AmoRuleMatches (ruleId r))
             (logAt LInfo (JStr u) (AmoCheckRule (ruleId r)) w))))"
  by (simp add: amoDispatch_def Let_def split: option.splits)

lemma amoDispatch_calls:
  assumes "\<forall>a \<in> set (actionList (actions r)). actionTypeText a \<noteq> None"
  shows "syncCalls (amoDispatch e u (amoEventEntries u leadId ld cds pl) r key w)
           = syncCalls w @ plannedCalls (rt e) (JStr u) (JObj (amoEventEntries u leadId ld cds pl))
                             (actionList (actions r))"
  using executeActions_calls[OF assms, of e "amoEventEntries u leadId ld cds pl"]
  by (simp add: amoDispatch_syncCalls amoEntries_userId)

text \<open>
  Claim C7. In both rule loops an exception that leaves the \<open>try\<close> block of a rule is
  caught and logged as that rule's error, and the loop goes on with every later rule
  from the state after the log entry; a later rule that passes the checks there is
  dispatched. Dispatching a rule makes the adapter calls of its actions, in order,
  whatever the adapters answer: a failing adapter call is caught inside
  \<open>executeActions\<close> (logged as the action's error), the remaining actions are still
  run, and \<open>executeActions\<close> never throws; so after a rule whose adapter calls or whose
  counting failed, the next rule's adapter calls are made. (For AmoCRM the lead id is
  one that converts to a string, as every id taken from a webhook does; the actions
  are ones whose \<open>type\<close> converts to a string.)
\<close>

theorem rule_isolation:
  "(fst (lpRuleAttempt e u wd r w) = Some x \<longrightarrow>
      lpRuleStep e u wd r w
        = logAt LError (JStr u) (LpRuleError (ruleId r) x) (snd (lpRuleAttempt e u wd r w)))
   \<and> lpRuleLoop e u wd (pre @ r # post) w
        = lpRuleLoop e u wd post (lpRuleStep e u wd r (lpRuleLoop e u wd pre w))
   \<and> (fst (lpRuleAttempt e u wd r w) = Some x
        \<and> lpDispatches e u wd r' (lpRuleStep e u wd r w) \<and> lpDedupKey u wd r' = Some k'
      \<longrightarrow> lpRuleLoop e u wd (r # r' # post) w
            = lpRuleLoop e u wd post
                (lpDispatch e u wd r' k'
                  (logAt LError (JStr u) (LpRuleError (ruleId r) x) (snd (lpRuleAttempt e u wd r w)))))
   \<and> (js_String leadId = Some s \<and> fst (amoRuleAttempt e u leadId ld cds pl r w) = Some x \<longrightarrow>
        amoRuleStep e u leadId ld cds pl r w
          = (None, logAt LError (JStr u) (AmoRuleError (ruleId r) x)
                     (snd (amoRuleAttempt e u leadId ld cds pl r w))))
   \<and> (js_String leadId = Some s \<longrightarrow>
        amoRuleLoop e u leadId ld cds pl (pre @ r # post) w
          = amoRuleLoop e u leadId ld cds pl post
              (snd (amoRuleStep e u leadId ld cds pl r (snd (amoRuleLoop e u leadId ld cds pl pre w))))
        \<and> fst (amoRuleLoop e u leadId ld cds pl (pre @ r # post) w) = None)
   \<and> (js_String leadId = Some s \<and> fst (amoRuleAttempt e u leadId ld cds pl r w) = Some x
        \<and> amoDispatches e u leadId ld cds pl r' (snd (amoRuleStep e u leadId ld cds pl r w))
        \<and> amoDedupKey u leadId r' = Some k' \<and> getProp ld ''pipeline_id'' \<noteq> None
      \<longrightarrow> amoRuleLoop e u leadId ld cds pl (r # r' # post) w
            = amoRuleLoop e u leadId ld cds pl post
                (amoDispatch e u (amoEventEntries u leadId ld cds pl) r' k'
                  (logAt LError (JStr u) (AmoRuleError (ruleId r) x)
                     (snd (amoRuleAttempt e u leadId ld cds pl r w)))))
   \<and> fst (executeActions e acts entries w) = None
   \<and> (fst (actionAttempt e ev uid a w) = Some x \<and> actionTypeText a \<noteq> None \<longrightarrow>
        runAction e ev uid a w
          = (None, logAt LError uid (ActionError x) (snd (actionAttempt e ev uid a w))))
   \<and> ((\<forall>a \<in> set (actionList (actions r')). actionTypeText a \<noteq> None) \<longrightarrow>
        syncCalls (lpDispatch e u wd r' k' w)
          = syncCalls w @ plannedCalls (rt e) (JStr u) (JObj (lpEventEntries u wd))
                            (actionList (actions r'))
        \<and> syncCalls (amoDispatch e u (amoEventEntries u leadId ld cds pl) r' k' w)
          = syncCalls w @ plannedCalls (rt e) (JStr u) (JObj (amoEventEntries u leadId ld cds pl))
                            (actionList (actions r')))
   \<and> (actionTypeText a \<noteq> None \<and> plannedCall (rt e) uid ev a = Some c \<and> syncFails e c = Some x \<longrightarrow>
        runAction e ev uid a w
          = (None, logAt LError uid (ActionError x) (snd (actionAttempt e ev uid a w)))
        \<and> syncCalls (snd (runAction e ev uid a w)) = syncCalls w @ [c])
   \<and> ((\<forall>a \<in> set as. actionTypeText a \<noteq> None) \<longrightarrow>
        fst (runActions e ev uid as w) = None
        \<and> syncCalls (snd (runActions e ev uid as w)) = syncCalls w @ plannedCalls (rt e) uid ev as)
   \<and> (lpDispatches e u wd r w \<and> lpDedupKey u wd r = Some k
        \<and> lpDispatches e u wd r' (lpRuleStep e u wd r w) \<and> lpDedupKey u wd r' = Some k'
        \<and> (\<forall>a \<in> set (actionList (actions r)). actionTypeText a \<noteq> None)
        \<and> (\<forall>a \<in> set (actionList (actions r')). actionTypeText a \<noteq> None)
      \<longrightarrow> syncCalls (lpRuleLoop e u wd [r, r'] w)
            = syncCalls w
              @ plannedCalls (rt e) (JStr u) (JObj (lpEventEntries u wd)) (actionList (actions r))
              @ plannedCalls (rt e) (JStr u) (JObj (lpEventEntries u wd)) (actionList (actions r')))
   \<and> (amoDispatches e u leadId ld cds pl r w \<and> amoDedupKey u leadId r = Some k
        \<and> amoDispatches e u leadId ld cds pl r' (snd (amoRuleStep e u leadId ld cds pl r w))
        \<and> amoDedupKey u leadId r' = Some k' \<and> getProp ld ''pipeline_id'' \<noteq> None
        \<and> (\<forall>a \<in> set (actionList (actions r)). actionTypeText a \<noteq> None)
        \<and> (\<forall>a \<in> set (actionList (actions r')). actionTypeText a \<noteq> None)
      \<longrightarrow> syncCalls (snd (amoRuleLoop e u leadId ld cds pl [r, r'] w))
            = syncCalls w
              @ plannedCalls (rt e) (JStr u) (JObj (amoEventEntries u leadId ld cds pl))
                  (actionList (actions r))
              @ plannedCalls (rt e) (JStr u) (JObj (amoEventEntries u leadId ld cds pl))
                  (actionList (actions r')))"
proof -
  have c1: "fst (lpRuleAttempt e u wd r w) = Some x \<longrightarrow>
      lpRuleStep e u wd r w
        = logAt LError (JStr u) (LpRuleError (ruleId r) x) (snd (lpRuleAttempt e u wd r w))"
    using lpRuleStep_caught[of e u wd r w x] by blast
  have c2: "lpRuleLoop e u wd (pre @ r # post) w
        = lpRuleLoop e u wd post (lpRuleStep e u wd r (lpRuleLoop e u wd pre w))"
    by (simp add: lpRuleLoop_append)
  have c3: "fst (lpRuleAttempt e u wd r w) = Some x
        \<and> lpDispatches e u wd r' (lpRuleStep e u wd r w) \<and> lpDedupKey u wd r' = Some k'
      \<longrightarrow> lpRuleLoop e u wd (r # r' # post) w
            = lpRuleLoop e u wd post
                (lpDispatch e u wd r' k'
                  (logAt LError (JStr u) (LpRuleError (ruleId r) x) (snd (lpRuleAttempt e u wd r w))))"
  proof (intro impI, elim conjE)
    assume a: "fst (lpRuleAttempt e u wd r w) = Some x"
      "lpDispatches e u wd r' (lpRuleStep e u wd r w)" "lpDedupKey u wd r' = Some k'"
    show "lpRuleLoop e u wd (r # r' # post) w
            = lpRuleLoop e u wd post
                (lpDispatch e u wd r' k'
                  (logAt LError (JStr u) (LpRuleError (ruleId r) x) (snd (lpRuleAttempt e u wd r w))))"
      using lpRuleStep_dispatch[OF a(2,3)] lpRuleStep_caught[OF a(1)] by simp
  qed
  have c4: "js_String leadId = Some s \<and> fst (amoRuleAttempt e u leadId ld cds pl r w) = Some x \<longrightarrow>
        amoRuleStep e u leadId ld cds pl r w
          = (None, logAt LError (JStr u) (AmoRuleError (ruleId r) x)
                     (snd (amoRuleAttempt e u leadId ld cds pl r w)))"
    using amoRuleStep_caught[of leadId s e u ld cds pl r w x] by blast
  have c5: "js_String leadId = Some s \<longrightarrow>
        amoRuleLoop e u leadId ld cds pl (pre @ r # post) w
          = amoRuleLoop e u leadId ld cds pl post
              (snd (amoRuleStep e u leadId ld cds pl r (snd (amoRuleLoop e u leadId ld cds pl pre w))))
        \<and> fst (amoRuleLoop e u leadId ld cds pl (pre @ r # post) w) = None"
  proof
    assume s: "js_String leadId = Some s"
    have "amoRuleLoop e u leadId ld cds pl (pre @ r # post) w
          = amoRuleLoop e u leadId ld cds pl post
              (snd (amoRuleStep e u leadId ld cds pl r (snd (amoRuleLoop e u leadId ld cds pl pre w))))"
      by (simp only: amoRuleLoop_split[OF s] amoRuleLoop_step[OF s])
    then show "amoRuleLoop e u leadId ld cds pl (pre @ r # post) w
          = amoRuleLoop e u leadId ld cds pl post
              (snd (amoRuleStep e u leadId ld cds pl r (snd (amoRuleLoop e u leadId ld cds pl pre w))))
        \<and> fst (amoRuleLoop e u leadId ld cds pl (pre @ r # post) w) = None"
      using amoRuleLoop_never_throws[OF s, of e u ld cds pl "pre @ r # post" w] by blast
  qed
  have c6: "js_String leadId = Some s \<and> fst (amoRuleAttempt e u leadId ld cds pl r w) = Some x
        \<and> amoDispatches e u leadId ld cds pl r' (snd (amoRuleStep e u leadId ld cds pl r w))
        \<and> amoDedupKey u leadId r' = Some k' \<and> getProp ld ''pipeline_id'' \<noteq> None
      \<longrightarrow> amoRuleLoop e u leadId ld cds pl (r # r' # post) w
            = amoRuleLoop e u leadId ld cds pl post
                (amoDispatch e u (amoEventEntries u leadId ld cds pl) r' k'
                  (logAt LError (JStr u) (AmoRuleError (ruleId r) x)
                     (snd (amoRuleAttempt e u leadId ld cds pl r w))))"
  proof (intro impI, elim conjE)
    assume s: "js_String leadId = Some s" and x: "fst (amoRuleAttempt e u leadId ld cds pl r w) = Some x"
      and d: "amoDispatches e u leadId ld cds pl r' (snd (amoRuleStep e u leadId ld cds pl r w))"
      and k: "amoDedupKey u leadId r' = Some k'" and l: "getProp ld ''pipeline_id'' \<noteq> None"
    let ?w1 = "snd (amoRuleStep e u leadId ld cds pl r w)"
    have w1: "?w1 = logAt LError (JStr u) (AmoRuleError (ruleId r) x)
                     (snd (amoRuleAttempt e u leadId ld cds pl r w))"
      using amoRuleStep_caught[OF s x] by simp
    have "snd (amoRuleStep e u leadId ld cds pl r' ?w1)
        = amoDispatch e u (amoEventEntries u leadId ld cds pl) r' k' ?w1"
      using amoRuleStep_cases[OF k l, of e cds pl ?w1] d k by (auto simp add: amoDispatches_def)
    then show "amoRuleLoop e u leadId ld cds pl (r # r' # post) w
            = amoRuleLoop e u leadId ld cds pl post
                (amoDispatch e u (amoEventEntries u leadId ld cds pl) r' k'
                  (logAt LError (JStr u) (AmoRuleError (ruleId r) x)
                     (snd (amoRuleAttempt e u leadId ld cds pl r w))))"
      unfolding w1[symmetric] by (simp only: amoRuleLoop_step[OF s])
  qed
  have c7: "fst (executeActions e acts entries w) = None"
    by (rule executeActions_returns)
  have c8: "fst (actionAttempt e ev uid a w) = Some x \<and> actionTypeText a \<noteq> None \<longrightarrow>
        runAction e ev uid a w
          = (None, logAt LError uid (ActionError x) (snd (actionAttempt e ev uid a w)))"
    using runAction_caught[of e ev uid a w x] by blast
  have c9: "(\<forall>a \<in> set (actionList (actions r')). actionTypeText a \<noteq> None) \<longrightarrow>
        syncCalls (lpDispatch e u wd r' k' w)
          = syncCalls w @ plannedCalls (rt e) (JStr u) (JObj (lpEventEntries u wd))
                            (actionList (actions r'))
        \<and> syncCalls (amoDispatch e u (amoEventEntries u leadId ld cds pl) r' k' w)
          = syncCalls w @ plannedCalls (rt e) (JStr u) (JObj (amoEventEntries u leadId ld cds pl))
                            (actionList (actions r'))"
    using lpDispatch_calls[of r' e u wd k' w] amoDispatch_calls[of r' e u leadId ld cds pl k' w]
    by blast
  have c10: "actionTypeText a \<noteq> None \<and> plannedCall (rt e) uid ev a = Some c \<and> syncFails e c = Some x \<longrightarrow>
        runAction e ev uid a w
          = (None, logAt LError uid (ActionError x) (snd (actionAttempt e ev uid a w)))
        \<and> syncCalls (snd (runAction e ev uid a w)) = syncCalls w @ [c]"
  proof (intro impI, elim conjE)
    assume ty: "actionTypeText a \<noteq> None" and pc: "plannedCall (rt e) uid ev a = Some c"
      and f: "syncFails e c = Some x"
    from actionAttempt_calls(2)[OF ty pc, of w] f
    have "fst (actionAttempt e ev uid a w) = Some x" by simp
    from runAction_caught[OF this ty] runAction_calls(2)[OF ty, of e ev uid w] pc
    show "runAction e ev uid a w
          = (None, logAt LError uid (ActionError x) (snd (actionAttempt e ev uid a w)))
        \<and> syncCalls (snd (runAction e ev uid a w)) = syncCalls w @ [c]"
      by simp
  qed
  have c11: "(\<forall>a \<in> set as. actionTypeText a \<noteq> None) \<longrightarrow>
        fst (runActions e ev uid as w) = None
        \<and> syncCalls (snd (runActions e ev uid as w)) = syncCalls w @ plannedCalls (rt e) uid ev as"
    using runActions_calls[of as e ev uid w] by blast
  have c12: "lpDispatches e u wd r w \<and> lpDedupKey u wd r = Some k
        \<and> lpDispatches e u wd r' (lpRuleStep e u wd r w) \<and> lpDedupKey u wd r' = Some k'
        \<and> (\<forall>a \<in> set (actionList (actions r)). actionTypeText a \<noteq> None)
        \<and> (\<forall>a \<in> set (actionList (actions r')). actionTypeText a \<noteq> None)
      \<longrightarrow> syncCalls (lpRuleLoop e u wd [r, r'] w)
            = syncCalls w
              @ plannedCalls (rt e) (JStr u) (JObj (lpEventEntries u wd)) (actionList (actions r))
              @ plannedCalls (rt e) (JStr u) (JObj (lpEventEntries u wd)) (actionList (actions r'))"
  proof (intro impI, elim conjE)
    assume d: "lpDispatches e u wd r w" and k: "lpDedupKey u wd r = Some k"
      and d': "lpDispatches e u wd r' (lpRuleStep e u wd r w)" and k': "lpDedupKey u wd r' = Some k'"
      and ty: "\<forall>a \<in> set (actionList (actions r)). actionTypeText a \<noteq> None"
      and ty': "\<forall>a \<in> set (actionList (actions r')). actionTypeText a \<noteq> None"
    have s1: "lpRuleStep e u wd r w = lpDispatch e u wd r k w" using d k by (rule lpRuleStep_dispatch)
    have s2: "lpRuleStep e u wd r' (lpRuleStep e u wd r w)
        = lpDispatch e u wd r' k' (lpRuleStep e u wd r w)" using d' k' by (rule lpRuleStep_dispatch)
    show "syncCalls (lpRuleLoop e u wd [r, r'] w)
            = syncCalls w
              @ plannedCalls (rt e) (JStr u) (JObj (lpEventEntries u wd)) (actionList (actions r))
              @ plannedCalls (rt e) (JStr u) (JObj (lpEventEntries u wd)) (actionList (actions r'))"
      by (simp add: s2 lpDispatch_calls[OF ty']) (simp add: s1 lpDispatch_calls[OF ty])
  qed
  have c13: "amoDispatches e u leadId ld cds pl r w \<and> amoDedupKey u leadId r = Some k
        \<and> amoDispatches e u leadId ld cds pl r' (snd (amoRuleStep e u leadId ld cds pl r w))
        \<and> amoDedupKey u leadId r' = Some k' \<and> getProp ld ''pipeline_id'' \<noteq> None
        \<and> (\<forall>a \<in> set (actionList (actions r)). actionTypeText a \<noteq> None)
        \<and> (\<forall>a \<in> set (actionList (actions r')). actionTypeText a \<noteq> None)
      \<longrightarrow> syncCalls (snd (amoRuleLoop e u leadId ld cds pl [r, r'] w))
            = syncCalls w
              @ plannedCalls (rt e) (JStr u) (JObj (amoEventEntries u leadId ld cds pl))
                  (actionList (actions r))
              @ plannedCalls (rt e) (JStr u) (JObj (amoEventEntries u leadId ld cds pl))
                  (actionList (actions r'))"
  proof (intro impI, elim conjE)
    assume d: "amoDispatches e u leadId ld cds pl r w" and k: "amoDedupKey u leadId r = Some k"
      and d': "amoDispatches e u leadId ld cds pl r' (snd (amoRuleStep e u leadId ld cds pl r w))"
      and k': "amoDedupKey u leadId r' = Some k'" and l: "getProp ld ''pipeline_id'' \<noteq> None"
      and ty: "\<forall>a \<in> set (actionList (actions r)). actionTypeText a \<noteq> None"
      and ty': "\<forall>a \<in> set (actionList (actions r')). actionTypeText a \<noteq> None"
    from amoDedupKey_Some[OF k] obtain s' where s': "js_String leadId = Some s'" by blast
    let ?ev = "amoEventEntries u leadId ld cds pl"
    let ?w1 = "snd (amoRuleStep e u leadId ld cds pl r w)"
    have s1: "?w1 = amoDispatch e u ?ev r k w"
      using amoRuleStep_cases[OF k l, of e cds pl w] d k by (auto simp add: amoDispatches_def)
    have s2: "snd (amoRuleStep e u leadId ld cds pl r' ?w1) = amoDispatch e u ?ev r' k' ?w1"
      using amoRuleStep_cases[OF k' l, of e cds pl ?w1] d' k' by (auto simp add: amoDispatches_def)
    have lp: "snd (amoRuleLoop e u leadId ld cds pl [r, r'] w)
        = snd (amoRuleStep e u leadId ld cds pl r' ?w1)"
      by (simp only: amoRuleLoop_step[OF s'] amoRuleLoop.simps(1) snd_conv)
    show "syncCalls (snd (amoRuleLoop e u leadId ld cds pl [r, r'] w))
            = syncCalls w
              @ plannedCalls (rt e) (JStr u) (JObj ?ev) (actionList (actions r))
              @ plannedCalls (rt e) (JStr u) (JObj ?ev) (actionList (actions r'))"
    proof -
      have a: "syncCalls (snd (amoRuleStep e u leadId ld cds pl r' ?w1))
          = syncCalls ?w1 @ plannedCalls (rt e) (JStr u) (JObj ?ev) (actionList (actions r'))"
        by (simp only: s2 amoDispatch_calls[OF ty'])
      have b: "syncCalls ?w1
          = syncCalls w @ plannedCalls (rt e) (JStr u) (JObj ?ev) (actionList (actions r))"
        by (simp only: s1 amoDispatch_calls[OF ty])
      show ?thesis by (simp only: lp a b append_assoc)
    qed
  qed
  show ?thesis
    by (intro conjI) (fact c1, fact c2, fact c3, fact c4, fact c5, fact c6, fact c7, fact c8,
        fact c9, fact c10, fact c11, fact c12, fact c13)
qed

lemma actionList_syncToAmo:
  "actionList syncToAmo = [JObj [(''type'', JStr ''sync_to_amocrm'')]]"
  "\<forall>a \<in> set (actionList syncToAmo). actionTypeText a \<noteq> None"
  by (simp_all add: actionList_def syncToAmo_def js_iter_def actionTypeText_def)

lemma build_lead142:
  "buildSyncRecord exampleRuntime (JObj [(''type'', JStr ''sync_to_amocrm'')])
      (JObj (amoEventEntries ''u1'' (JStr ''77'') lead142 [] (JObj []))) \<noteq> None"
  by (simp add: amoEventEntries_def lead142_def buildSyncRecord_def firstContact_def optChain_def
      nullish_def orElse_def optField_def extractPhoneFromLpTrackerContact_def
      extractFromContact_def optionalSetting_def js_or_def js_index0_def)

lemma planned_syncToAmo:
  assumes "buildSyncRecord r (JObj [(''type'', JStr ''sync_to_amocrm'')]) ev \<noteq> None"
  shows "map fst (plannedCalls r uid ev (actionList syncToAmo)) = [AmoCrm]"
  using assms by (auto simp add: actionList_syncToAmo plannedCall_def)

lemma executeActions_syncToAmo_logs:
  assumes "buildSyncRecord (rt e) (JObj [(''type'', JStr ''sync_to_amocrm'')]) (JObj entries) = Some sr"
  shows "logs (snd (executeActions e syncToAmo entries w))
     = logs w @ [(LInfo, entryUserId entries, ActionRunning), (LInfo, entryUserId entries, ActionSourceData)]
       @ (case syncFails e (AmoCrm, entryUserId entries, sr, JStr ''phone'') of
            None \<Rightarrow> [] | Some x \<Rightarrow> [(LError, entryUserId entries, ActionError x)])"
  using assms
  by (cases "syncFails e (AmoCrm, entryUserId entries, sr, JStr ''phone'')")
     (simp_all add: executeActions_def syncToAmo_def js_iter_def runAction_def actionAttempt_def
       actionTypeText_def callAdapter_def Let_def js_or_def entryUserId_def)

lemma lpDispatch_logs:
  "logs (lpDispatch e u wd r key w)
     = logs (snd (executeActions e (actions r) (lpEventEntries u wd)
                    (logAt LInfo (JStr u) (LpRuleApplicable (ruleId r)) w)))
       @ (case incrementFails e (ruleId r) of
            None \<Rightarrow> [] | Some x \<Rightarrow> [(LError, JStr u, LpRuleError (ruleId r) x)])"
  by (simp add: lpDispatch_def Let_def split: option.splits)

lemma amoDispatch_logs:
  "logs (amoDispatch e u ev r key w)
     = logs (snd (executeActions e (actions r) ev
          (logAt LInfo (JStr u) (AmoRuleMatches (ruleId r))
             (logAt LInfo (JStr u) (AmoCheckRule (ruleId r)) w))))
       @ (case incrementFails e (ruleId r) of
            None \<Rightarrow> [] | Some x \<Rightarrow> [(LError, JStr u, AmoRuleError (ruleId r) x)])"
  by (simp add: amoDispatch_def Let_def split: option.splits)

lemma lp_two_rules:
  assumes rt: "rt e = exampleRuntime"
  shows "lpRuleLoop e ''u1'' stage142 [rule7, rule8] world0
       = lpDispatch e ''u1'' stage142 rule8 ''webhook:u1:42:8:default''
           (lpDispatch e ''u1'' stage142 rule7 ''webhook:u1:42:7:default'' world0)"
    and "lpDispatches e ''u1'' stage142 rule7 world0"
    and "lpDispatches e ''u1'' stage142 rule8 (lpRuleStep e ''u1'' stage142 rule7 world0)"
proof -
  show d7: "lpDispatches e ''u1'' stage142 rule7 world0"
    by (simp add: lpDispatches_def rt cc_rule78 keys_rule78 relevant_rule78 world0_fields)
  have s7: "lpRuleStep e ''u1'' stage142 rule7 world0
      = lpDispatch e ''u1'' stage142 rule7 ''webhook:u1:42:7:default'' world0"
    using lpRuleStep_dispatch[OF d7 keys_rule78(1)] .
  show d8: "lpDispatches e ''u1'' stage142 rule8 (lpRuleStep e ''u1'' stage142 rule7 world0)"
    by (simp add: lpDispatches_def rt cc_rule78 keys_rule78 relevant_rule78 s7
        lpDispatch_other world0_fields)
  show "lpRuleLoop e ''u1'' stage142 [rule7, rule8] world0
       = lpDispatch e ''u1'' stage142 rule8 ''webhook:u1:42:8:default''
           (lpDispatch e ''u1'' stage142 rule7 ''webhook:u1:42:7:default'' world0)"
    using lpRuleStep_dispatch[OF d8 keys_rule78(2)] by (simp add: s7)
qed

lemma amo_two_rules:
  assumes rt: "rt e = exampleRuntime"
  shows "snd (amoRuleLoop e ''u1'' (JStr ''77'') lead142 [] (JObj []) [rule7, rule8] world0)
       = amoDispatch e ''u1'' (amoEventEntries ''u1'' (JStr ''77'') lead142 [] (JObj [])) rule8
           ''webhook:u1:77:8:default''
           (amoDispatch e ''u1'' (amoEventEntries ''u1'' (JStr ''77'') lead142 [] (JObj [])) rule7
              ''webhook:u1:77:7:default'' world0)"
    and "amoDispatches e ''u1'' (JStr ''77'') lead142 [] (JObj []) rule7 world0"
    and "amoDispatches e ''u1'' (JStr ''77'') lead142 [] (JObj []) rule8
           (snd (amoRuleStep e ''u1'' (JStr ''77'') lead142 [] (JObj []) rule7 world0))"
proof -
  let ?ev = "amoEventEntries ''u1'' (JStr ''77'') lead142 [] (JObj [])"
  have js: "js_String (JStr ''77'') = Some ''77''" by simp
  show d7: "amoDispatches e ''u1'' (JStr ''77'') lead142 [] (JObj []) rule7 world0"
    by (simp add: amoDispatches_def rt cc_rule78_amo keys_rule78 world0_fields)
  have s7: "snd (amoRuleStep e ''u1'' (JStr ''77'') lead142 [] (JObj []) rule7 world0)
      = amoDispatch e ''u1'' ?ev rule7 ''webhook:u1:77:7:default'' world0"
    by (simp add: amo_step_world0 rt cc_rule78_amo)
  show d8: "amoDispatches e ''u1'' (JStr ''77'') lead142 [] (JObj []) rule8
           (snd (amoRuleStep e ''u1'' (JStr ''77'') lead142 [] (JObj []) rule7 world0))"
    by (simp add: amoDispatches_def rt cc_rule78_amo keys_rule78 s7 amoDispatch_other world0_fields)
  have s8: "snd (amoRuleStep e ''u1'' (JStr ''77'') lead142 [] (JObj []) rule8
                  (amoDispatch e ''u1'' ?ev rule7 ''webhook:u1:77:7:default'' world0))
      = amoDispatch e ''u1'' ?ev rule8 ''webhook:u1:77:8:default''
          (amoDispatch e ''u1'' ?ev rule7 ''webhook:u1:77:7:default'' world0)"
    using amoRuleStep_cases[OF keys_rule78(4) lead142_pipeline, of e "[]" "JObj []"
        "amoDispatch e ''u1'' ?ev rule7 ''webhook:u1:77:7:default'' world0"]
    by (simp add: rt cc_rule78_amo amoDispatch_other world0_fields)
  have "snd (amoRuleLoop e ''u1'' (JStr ''77'') lead142 [] (JObj []) [rule7, rule8] world0)
      = snd (amoRuleStep e ''u1'' (JStr ''77'') lead142 [] (JObj []) rule8
               (snd (amoRuleStep e ''u1'' (JStr ''77'') lead142 [] (JObj []) rule7 world0)))"
    by (simp only: amoRuleLoop_step[OF js] amoRuleLoop.simps(1) snd_conv)
  then show "snd (amoRuleLoop e ''u1'' (JStr ''77'') lead142 [] (JObj []) [rule7, rule8] world0)
       = amoDispatch e ''u1'' ?ev rule8 ''webhook:u1:77:8:default''
           (amoDispatch e ''u1'' ?ev rule7 ''webhook:u1:77:7:default'' world0)"
    by (simp only: s7 s8)
qed

lemma two_rule_logs:
  assumes rt: "rt e = exampleRuntime"
  shows "map (snd \<circ> snd) (logs (lpDispatch e ''u1'' stage142 rule8 ''webhook:u1:42:8:default''
           (lpDispatch e ''u1'' stage142 rule7 ''webhook:u1:42:7:default'' world0)))
     = [LpRuleApplicable 7, ActionRunning, ActionSourceData]
       @ (case syncFails e (AmoCrm, JStr ''u1'',
                  the (buildSyncRecord exampleRuntime (JObj [(''type'', JStr ''sync_to_amocrm'')])
                         (JObj (lpEventEntries ''u1'' stage142))), JStr ''phone'') of
            None \<Rightarrow> [] | Some x \<Rightarrow> [ActionError x])
       @ (case incrementFails e 7 of None \<Rightarrow> [] | Some x \<Rightarrow> [LpRuleError 7 x])
       @ [LpRuleApplicable 8, ActionRunning, ActionSourceData]
       @ (case syncFails e (AmoCrm, JStr ''u1'',
                  the (buildSyncRecord exampleRuntime (JObj [(''type'', JStr ''sync_to_amocrm'')])
                         (JObj (lpEventEntries ''u1'' stage142))), JStr ''phone'') of
            None \<Rightarrow> [] | Some x \<Rightarrow> [ActionError x])
       @ (case incrementFails e 8 of None \<Rightarrow> [] | Some x \<Rightarrow> [LpRuleError 8 x])"
proof -
  from build_stage142 obtain sr where
    sr: "buildSyncRecord (rt e) (JObj [(''type'', JStr ''sync_to_amocrm'')])
           (JObj (lpEventEntries ''u1'' stage142)) = Some sr"
    by (auto simp add: rt)
  then have sr': "buildSyncRecord exampleRuntime (JObj [(''type'', JStr ''sync_to_amocrm'')])
           (JObj (lpEventEntries ''u1'' stage142)) = Some sr" by (simp add: rt)
  show ?thesis
    by (simp add: lpDispatch_logs rule_fields executeActions_syncToAmo_logs[OF sr] lpEntries_userId
        rule_ids sr' world0_def split: option.splits)
qed

lemma two_rule_logs_amo:
  assumes rt: "rt e = exampleRuntime"
  shows "map (snd \<circ> snd) (logs (amoDispatch e ''u1'' (amoEventEntries ''u1'' (JStr ''77'') lead142 [] (JObj [])) rule8 ''webhook:u1:77:8:default''
           (amoDispatch e ''u1'' (amoEventEntries ''u1'' (JStr ''77'') lead142 [] (JObj [])) rule7 ''webhook:u1:77:7:default'' world0)))
     = [AmoCheckRule 7, AmoRuleMatches 7, ActionRunning, ActionSourceData]
       @ (case syncFails e (AmoCrm, JStr ''u1'',
                  the (buildSyncRecord exampleRuntime (JObj [(''type'', JStr ''sync_to_amocrm'')])
                         (JObj (amoEventEntries ''u1'' (JStr ''77'') lead142 [] (JObj [])))), JStr ''phone'') of
            None \<Rightarrow> [] | Some x \<Rightarrow> [ActionError x])
       @ (case incrementFails e 7 of None \<Rightarrow> [] | Some x \<Rightarrow> [AmoRuleError 7 x])
       @ [AmoCheckRule 8, AmoRuleMatches 8, ActionRunning, ActionSourceData]
       @ (case syncFails e (AmoCrm, JStr ''u1'',
                  the (buildSyncRecord exampleRuntime (JObj [(''type'', JStr ''sync_to_amocrm'')])
                         (JObj (amoEventEntries ''u1'' (JStr ''77'') lead142 [] (JObj [])))), JStr ''phone'') of
            None \<Rightarrow> [] | Some x \<Rightarrow> [ActionError x])
       @ (case incrementFails e 8 of None \<Rightarrow> [] | Some x \<Rightarrow> [AmoRuleError 8 x])"
proof -
  from build_lead142 obtain sr where
    sr: "buildSyncRecord (rt e) (JObj [(''type'', JStr ''sync_to_amocrm'')]) (JObj (amoEventEntries ''u1'' (JStr ''77'') lead142 [] (JObj []))) = Some sr"
    by (auto simp add: rt)
  then have sr': "buildSyncRecord exampleRuntime (JObj [(''type'', JStr ''sync_to_amocrm'')])
           (JObj (amoEventEntries ''u1'' (JStr ''77'') lead142 [] (JObj []))) = Some sr" by (simp add: rt)
  show ?thesis
    by (simp add: amoDispatch_logs rule_fields executeActions_syncToAmo_logs[OF sr] amoEntries_userId
        rule_ids sr' world0_def split: option.splits)
qed

lemma flaky_fields: "syncFails flakyEnv c = None"
  by (simp add: flakyEnv_def)

text \<open>
  Claim C7 at concrete rules 7 and 8, both with one action \<open>sync_to_amocrm\<close>, in both
  loops. When every adapter call fails, both rules still make their adapter call, the
  failures are logged as action errors, and both rules are counted. When counting rule
  7 fails in the store after its dispatch, the error is logged as the rule's error and
  rule 8 makes its adapter call and is counted.
\<close>

theorem rule_isolation_witness:
  "(\<forall>c. syncFails brokenEnv c = Some (Failure ''adapter down''))
   \<and> map fst (syncCalls (lpRuleLoop brokenEnv ''u1'' stage142 [rule7, rule8] world0)) = [AmoCrm, AmoCrm]
   \<and> map (snd \<circ> snd) (logs (lpRuleLoop brokenEnv ''u1'' stage142 [rule7, rule8] world0))
       = [LpRuleApplicable 7, ActionRunning, ActionSourceData, ActionError (Failure ''adapter down''),
          LpRuleApplicable 8, ActionRunning, ActionSourceData, ActionError (Failure ''adapter down'')]
   \<and> execCount (lpRuleLoop brokenEnv ''u1'' stage142 [rule7, rule8] world0) 7 = 1
   \<and> execCount (lpRuleLoop brokenEnv ''u1'' stage142 [rule7, rule8] world0) 8 = 1
   \<and> fst (lpRuleAttempt flakyEnv ''u1'' stage142 rule7 world0) = Some (Failure ''db'')
   \<and> map fst (syncCalls (lpRuleLoop flakyEnv ''u1'' stage142 [rule7, rule8] world0)) = [AmoCrm, AmoCrm]
   \<and> map (snd \<circ> snd) (logs (lpRuleLoop flakyEnv ''u1'' stage142 [rule7, rule8] world0))
       = [LpRuleApplicable 7, ActionRunning, ActionSourceData, LpRuleError 7 (Failure ''db''),
          LpRuleApplicable 8, ActionRunning, ActionSourceData]
   \<and> execCount (lpRuleLoop flakyEnv ''u1'' stage142 [rule7, rule8] world0) 7 = 0
   \<and> execCount (lpRuleLoop flakyEnv ''u1'' stage142 [rule7, rule8] world0) 8 = 1
   \<and> map fst (syncCalls (snd (amoRuleLoop brokenEnv ''u1'' (JStr ''77'') lead142 [] (JObj [])
                                 [rule7, rule8] world0))) = [AmoCrm, AmoCrm]
   \<and> map (snd \<circ> snd) (logs (snd (amoRuleLoop brokenEnv ''u1'' (JStr ''77'') lead142 [] (JObj [])
                                      [rule7, rule8] world0)))
       = [AmoCheckRule 7, AmoRuleMatches 7, ActionRunning, ActionSourceData,
          ActionError (Failure ''adapter down''),
          AmoCheckRule 8, AmoRuleMatches 8, ActionRunning, ActionSourceData,
          ActionError (Failure ''adapter down'')]
   \<and> execCount (snd (amoRuleLoop brokenEnv ''u1'' (JStr ''77'') lead142 [] (JObj [])
                        [rule7, rule8] world0)) 7 = 1
   \<and> execCount (snd (amoRuleLoop brokenEnv ''u1'' (JStr ''77'') lead142 [] (JObj [])
                        [rule7, rule8] world0)) 8 = 1
   \<and> fst (amoRuleAttempt flakyEnv ''u1'' (JStr ''77'') lead142 [] (JObj []) rule7 world0)
       = Some (Failure ''db'')
   \<and> map fst (syncCalls (snd (amoRuleLoop flakyEnv ''u1'' (JStr ''77'') lead142 [] (JObj [])
                                 [rule7, rule8] world0))) = [AmoCrm, AmoCrm]
   \<and> map (snd \<circ> snd) (logs (snd (amoRuleLoop flakyEnv ''u1'' (JStr ''77'') lead142 [] (JObj [])
                                      [rule7, rule8] world0)))
       = [AmoCheckRule 7, AmoRuleMatches 7, ActionRunning, ActionSourceData,
          AmoRuleError 7 (Failure ''db''),
          AmoCheckRule 8, AmoRuleMatches 8, ActionRunning, ActionSourceData]
   \<and> execCount (snd (amoRuleLoop flakyEnv ''u1'' (JStr ''77'') lead142 [] (JObj [])
                        [rule7, rule8] world0)) 7 = 0
   \<and> execCount (snd (amoRuleLoop flakyEnv ''u1'' (JStr ''77'') lead142 [] (JObj [])
                        [rule7, rule8] world0)) 8 = 1"
proof -
  note lpB = rule_isolation[where e = brokenEnv and u = "''u1''" and wd = stage142 and r = rule7
      and r' = rule8 and w = world0 and k = "''webhook:u1:42:7:default''"
      and k' = "''webhook:u1:42:8:default''", THEN conjunct2, THEN conjunct2, THEN conjunct2, THEN conjunct2, THEN conjunct2, THEN conjunct2, THEN conjunct2, THEN conjunct2, THEN conjunct2, THEN conjunct2, THEN conjunct2, THEN conjunct1]
  note lpF = rule_isolation[where e = flakyEnv and u = "''u1''" and wd = stage142 and r = rule7
      and r' = rule8 and w = world0 and k = "''webhook:u1:42:7:default''"
      and k' = "''webhook:u1:42:8:default''", THEN conjunct2, THEN conjunct2, THEN conjunct2, THEN conjunct2, THEN conjunct2, THEN conjunct2, THEN conjunct2, THEN conjunct2, THEN conjunct2, THEN conjunct2, THEN conjunct2, THEN conjunct1]
  note amB = rule_isolation[where e = brokenEnv and u = "''u1''" and r = rule7 and r' = rule8
      and w = world0 and leadId = "JStr ''77''" and ld = lead142 and cds = "[]" and pl = "JObj []"
      and k = "''webhook:u1:77:7:default''" and k' = "''webhook:u1:77:8:default''", THEN conjunct2, THEN conjunct2, THEN conjunct2, THEN conjunct2, THEN conjunct2, THEN conjunct2, THEN conjunct2, THEN conjunct2, THEN conjunct2, THEN conjunct2, THEN conjunct2, THEN conjunct2]
  note amF = rule_isolation[where e = flakyEnv and u = "''u1''" and r = rule7 and r' = rule8
      and w = world0 and leadId = "JStr ''77''" and ld = lead142 and cds = "[]" and pl = "JObj []"
      and k = "''webhook:u1:77:7:default''" and k' = "''webhook:u1:77:8:default''", THEN conjunct2, THEN conjunct2, THEN conjunct2, THEN conjunct2, THEN conjunct2, THEN conjunct2, THEN conjunct2, THEN conjunct2, THEN conjunct2, THEN conjunct2, THEN conjunct2, THEN conjunct2]
  note rtB = env_fields(1) and rtF = env_fields(2)
  have pl: "map fst (plannedCalls exampleRuntime (JStr ''u1'') (JObj (lpEventEntries ''u1'' stage142))
                       (actionList syncToAmo)) = [AmoCrm]"
    by (rule planned_syncToAmo[OF build_stage142])
  have pa: "map fst (plannedCalls exampleRuntime (JStr ''u1'') (JObj (amoEventEntries ''u1'' (JStr ''77'') lead142 [] (JObj [])))
                       (actionList syncToAmo)) = [AmoCrm]"
    by (rule planned_syncToAmo[OF build_lead142])
  have c1: "\<forall>c. syncFails brokenEnv c = Some (Failure ''adapter down'')"
    by (simp add: env_fields)
  have "syncCalls (lpRuleLoop brokenEnv ''u1'' stage142 [rule7, rule8] world0)
      = plannedCalls exampleRuntime (JStr ''u1'') (JObj (lpEventEntries ''u1'' stage142)) (actionList syncToAmo)
        @ plannedCalls exampleRuntime (JStr ''u1'') (JObj (lpEventEntries ''u1'' stage142)) (actionList syncToAmo)"
    using lpB lp_two_rules(2,3)[OF rtB] keys_rule78 actionList_syncToAmo(2)
    by (simp add: rule_fields rtB del: lpRuleLoop_Cons)
  then have c2: "map fst (syncCalls (lpRuleLoop brokenEnv ''u1'' stage142 [rule7, rule8] world0))
      = [AmoCrm, AmoCrm]"
    using pl by simp
  have c3: "map (snd \<circ> snd) (logs (lpRuleLoop brokenEnv ''u1'' stage142 [rule7, rule8] world0))
       = [LpRuleApplicable 7, ActionRunning, ActionSourceData, ActionError (Failure ''adapter down''),
          LpRuleApplicable 8, ActionRunning, ActionSourceData, ActionError (Failure ''adapter down'')]"
    by (simp only: lp_two_rules(1)[OF rtB] two_rule_logs[OF rtB]) (simp add: env_fields)
  have c4: "execCount (lpRuleLoop brokenEnv ''u1'' stage142 [rule7, rule8] world0) 7 = 1"
    "execCount (lpRuleLoop brokenEnv ''u1'' stage142 [rule7, rule8] world0) 8 = 1"
    by (simp_all only: lp_two_rules(1)[OF rtB])
       (simp_all add: lpDispatch_execCount env_fields rule_ids world0_fields)
  have c5: "fst (lpRuleAttempt flakyEnv ''u1'' stage142 rule7 world0) = Some (Failure ''db'')"
    using lpRuleAttempt_dispatch_fst[OF lp_two_rules(2)[OF rtF]] by (simp add: rule_ids env_fields)
  have "syncCalls (lpRuleLoop flakyEnv ''u1'' stage142 [rule7, rule8] world0)
      = plannedCalls exampleRuntime (JStr ''u1'') (JObj (lpEventEntries ''u1'' stage142)) (actionList syncToAmo)
        @ plannedCalls exampleRuntime (JStr ''u1'') (JObj (lpEventEntries ''u1'' stage142)) (actionList syncToAmo)"
    using lpF lp_two_rules(2,3)[OF rtF] keys_rule78 actionList_syncToAmo(2)
    by (simp add: rule_fields rtF del: lpRuleLoop_Cons)
  then have c6: "map fst (syncCalls (lpRuleLoop flakyEnv ''u1'' stage142 [rule7, rule8] world0))
      = [AmoCrm, AmoCrm]"
    using pl by simp
  have c7: "map (snd \<circ> snd) (logs (lpRuleLoop flakyEnv ''u1'' stage142 [rule7, rule8] world0))
       = [LpRuleApplicable 7, ActionRunning, ActionSourceData, LpRuleError 7 (Failure ''db''),
          LpRuleApplicable 8, ActionRunning, ActionSourceData]"
    by (simp only: lp_two_rules(1)[OF rtF] two_rule_logs[OF rtF]) (simp add: env_fields flaky_fields)
  have c8: "execCount (lpRuleLoop flakyEnv ''u1'' stage142 [rule7, rule8] world0) 7 = 0"
    "execCount (lpRuleLoop flakyEnv ''u1'' stage142 [rule7, rule8] world0) 8 = 1"
    by (simp_all only: lp_two_rules(1)[OF rtF])
       (simp_all add: lpDispatch_execCount env_fields rule_ids world0_fields)
  have "syncCalls (snd (amoRuleLoop brokenEnv ''u1'' (JStr ''77'') lead142 [] (JObj []) [rule7, rule8] world0))
      = plannedCalls exampleRuntime (JStr ''u1'') (JObj (amoEventEntries ''u1'' (JStr ''77'') lead142 [] (JObj []))) (actionList syncToAmo)
        @ plannedCalls exampleRuntime (JStr ''u1'') (JObj (amoEventEntries ''u1'' (JStr ''77'') lead142 [] (JObj []))) (actionList syncToAmo)"
    using amB amo_two_rules(2,3)[OF rtB] keys_rule78 actionList_syncToAmo(2) lead142_pipeline
    by (simp add: rule_fields rtB del: amoRuleLoop.simps(2))
  then have c9: "map fst (syncCalls (snd (amoRuleLoop brokenEnv ''u1'' (JStr ''77'') lead142 [] (JObj [])
                                 [rule7, rule8] world0))) = [AmoCrm, AmoCrm]"
    using pa by simp
  have c10: "map (snd \<circ> snd) (logs (snd (amoRuleLoop brokenEnv ''u1'' (JStr ''77'') lead142 [] (JObj [])
                                      [rule7, rule8] world0)))
       = [AmoCheckRule 7, AmoRuleMatches 7, ActionRunning, ActionSourceData,
          ActionError (Failure ''adapter down''),
          AmoCheckRule 8, AmoRuleMatches 8, ActionRunning, ActionSourceData,
          ActionError (Failure ''adapter down'')]"
    by (simp only: amo_two_rules(1)[OF rtB] two_rule_logs_amo[OF rtB]) (simp add: env_fields)
  have c11: "execCount (snd (amoRuleLoop brokenEnv ''u1'' (JStr ''77'') lead142 [] (JObj [])
                        [rule7, rule8] world0)) 7 = 1"
    "execCount (snd (amoRuleLoop brokenEnv ''u1'' (JStr ''77'') lead142 [] (JObj [])
                        [rule7, rule8] world0)) 8 = 1"
    by (simp_all only: amo_two_rules(1)[OF rtB])
       (simp_all add: amoDispatch_execCount env_fields rule_ids world0_fields)
  have c12: "fst (amoRuleAttempt flakyEnv ''u1'' (JStr ''77'') lead142 [] (JObj []) rule7 world0)
       = Some (Failure ''db'')"
    using amoRuleAttempt_dispatch_fst[OF amo_two_rules(2)[OF rtF] lead142_pipeline]
    by (simp add: rule_ids env_fields)
  have "syncCalls (snd (amoRuleLoop flakyEnv ''u1'' (JStr ''77'') lead142 [] (JObj []) [rule7, rule8] world0))
      = plannedCalls exampleRuntime (JStr ''u1'') (JObj (amoEventEntries ''u1'' (JStr ''77'') lead142 [] (JObj []))) (actionList syncToAmo)
        @ plannedCalls exampleRuntime (JStr ''u1'') (JObj (amoEventEntries ''u1'' (JStr ''77'') lead142 [] (JObj []))) (actionList syncToAmo)"
    using amF amo_two_rules(2,3)[OF rtF] keys_rule78 actionList_syncToAmo(2) lead142_pipeline
    by (simp add: rule_fields rtF del: amoRuleLoop.simps(2))
  then have c13: "map fst (syncCalls (snd (amoRuleLoop flakyEnv ''u1'' (JStr ''77'') lead142 [] (JObj [])
                                 [rule7, rule8] world0))) = [AmoCrm, AmoCrm]"
    using pa by simp
  have c14: "map (snd \<circ> snd) (logs (snd (amoRuleLoop flakyEnv ''u1'' (JStr ''77'') lead142 [] (JObj [])
                                      [rule7, rule8] world0)))
       = [AmoCheckRule 7, AmoRuleMatches 7, ActionRunning, ActionSourceData,
          AmoRuleError 7 (Failure ''db''),
          AmoCheckRule 8, AmoRuleMatches 8, ActionRunning, ActionSourceData]"
    by (simp only: amo_two_rules(1)[OF rtF] two_rule_logs_amo[OF rtF]) (simp add: env_fields flaky_fields)
  have c15: "execCount (snd (amoRuleLoop flakyEnv ''u1'' (JStr ''77'') lead142 [] (JObj [])
                        [rule7, rule8] world0)) 7 = 0"
    "execCount (snd (amoRuleLoop flakyEnv ''u1'' (JStr ''77'') lead142 [] (JObj [])
                        [rule7, rule8] world0)) 8 = 1"
    by (simp_all only: amo_two_rules(1)[OF rtF])
       (simp_all add: amoDispatch_execCount env_fields rule_ids world0_fields)
  show ?thesis
    by (intro conjI) (fact c1, fact c2, fact c3, fact c4(1), fact c4(2), fact c5, fact c6, fact c7,
        fact c8(1), fact c8(2), fact c9, fact c10, fact c11(1), fact c11(2), fact c12, fact c13,
        fact c14, fact c15(1), fact c15(2))
qed

section \<open>Idempotent suppression\<close>

lemma lp_idempotent:
  assumes up: "redisUp w0"
    and key: "lpDedupKey u wd r = Some key"
    and first: "lpDispatches e u wd r (lpRuleLoop e u wd pre1 w0)"
    and up2: "redisUp w2"
    and st2: "map_of (redisStore w2) (''crm:'' @ key)
                = map_of (redisStore (lpRuleLoop e u wd (pre1 @ r # post1) w0)) (''crm:'' @ key)"
    and t2: "clock w2 < clock w0 + WEBHOOK_DEDUP_TTL"
    and cc2: "checkConditions (rt e2) (conditions r) wd"
  shows "cache_exists (lpRuleLoop e2 u wd pre2 w2) key
       \<and> lpRuleStep e2 u wd r (lpRuleLoop e2 u wd pre2 w2)
           = logAt LInfo (JStr u) (LpRuleAlreadyProcessed (ruleId r)) (lpRuleLoop e2 u wd pre2 w2)
       \<and> lpRuleLoop e2 u wd (pre2 @ r # post2) w2
           = lpRuleLoop e2 u wd post2
               (logAt LInfo (JStr u) (LpRuleAlreadyProcessed (ruleId r)) (lpRuleLoop e2 u wd pre2 w2))"
proof -
  let ?wp = "lpRuleLoop e u wd pre1 w0"
  have fp: "clock ?wp = clock w0" "redisUp ?wp"
    using up lpRuleLoop_fields[of e u wd pre1 w0] by simp_all
  have "lpRuleStep e u wd r ?wp = lpDispatch e u wd r key ?wp"
    using first key by (rule lpRuleStep_dispatch)
  then have m1: "markedUntil (lpRuleStep e u wd r ?wp) key (clock w0 + WEBHOOK_DEDUP_TTL)"
    using lpDispatch_marks[of ?wp e u wd r key] fp by simp
  have c1: "clock (lpRuleStep e u wd r ?wp) = clock w0" by (simp add: lpRuleStep_fields fp)
  let ?w1 = "lpRuleLoop e u wd (pre1 @ r # post1) w0"
  have w1: "?w1 = lpRuleLoop e u wd post1 (lpRuleStep e u wd r ?wp)"
    by (simp add: lpRuleLoop_append)
  have m2: "markedUntil ?w1 key (clock w0 + WEBHOOK_DEDUP_TTL)"
    unfolding w1 using m1 c1 by (intro lpRuleLoop_keeps) simp_all
  have "markedUntil w2 key (clock w0 + WEBHOOK_DEDUP_TTL)"
    using m2 st2 by (simp add: markedUntil_def)
  then have m3: "markedUntil w2 key (Suc (clock w2))"
    using t2 by (auto simp add: markedUntil_def)
  let ?wq = "lpRuleLoop e2 u wd pre2 w2"
  have m4: "markedUntil ?wq key (Suc (clock w2))"
    using m3 by (intro lpRuleLoop_keeps) (simp_all add: WEBHOOK_DEDUP_TTL_def)
  have fq: "redisUp ?wq" "clock ?wq = clock w2"
    using up2 lpRuleLoop_fields[of e2 u wd pre2 w2] by simp_all
  have ex: "cache_exists ?wq key" using m4 fq by (simp add: cache_exists_marked)
  have st: "lpRuleStep e2 u wd r ?wq = logAt LInfo (JStr u) (LpRuleAlreadyProcessed (ruleId r)) ?wq"
    using cc2 key ex by (rule lpRuleStep_already)
  show ?thesis using ex st by (simp add: lpRuleLoop_append)
qed

lemma amo_idempotent:
  assumes up: "redisUp w0"
    and key: "amoDedupKey u leadId r = Some key"
    and ld: "getProp ld ''pipeline_id'' \<noteq> None"
    and first: "amoDispatches e u leadId ld cds pl r (snd (amoRuleLoop e u leadId ld cds pl pre1 w0))"
    and up2: "redisUp w2"
    and st2: "map_of (redisStore w2) (''crm:'' @ key)
                = map_of (redisStore (snd (amoRuleLoop e u leadId ld cds pl (pre1 @ r # post1) w0)))
                    (''crm:'' @ key)"
    and t2: "clock w2 < clock w0 + WEBHOOK_DEDUP_TTL"
    and cc2: "checkConditions (rt e2) (conditions r) (JObj (amoEventEntries u leadId ld cds pl))"
  shows "cache_exists (snd (amoRuleLoop e2 u leadId ld cds pl pre2 w2)) key
       \<and> snd (amoRuleStep e2 u leadId ld cds pl r (snd (amoRuleLoop e2 u leadId ld cds pl pre2 w2)))
           = logAt LInfo (JStr u) (AmoRuleAlreadyProcessed (ruleId r))
               (logAt LInfo (JStr u) (AmoRuleMatches (ruleId r))
                 (logAt LInfo (JStr u) (AmoCheckRule (ruleId r))
                   (snd (amoRuleLoop e2 u leadId ld cds pl pre2 w2))))
       \<and> snd (amoRuleLoop e2 u leadId ld cds pl (pre2 @ r # post2) w2)
           = snd (amoRuleLoop e2 u leadId ld cds pl post2
               (logAt LInfo (JStr u) (AmoRuleAlreadyProcessed (ruleId r))
                 (logAt LInfo (JStr u) (AmoRuleMatches (ruleId r))
                   (logAt LInfo (JStr u) (AmoCheckRule (ruleId r))
                     (snd (amoRuleLoop e2 u leadId ld cds pl pre2 w2))))))"
proof -
  from amoDedupKey_Some[OF key] obtain s where s: "js_String leadId = Some s" by blast
  note fld = amoRuleLoop_fields[OF s ld]
  note app = amoRuleLoop_append[OF s ld]
  note cns = amoRuleLoop_Cons[OF s ld]
  let ?wp = "snd (amoRuleLoop e u leadId ld cds pl pre1 w0)"
  have fp: "clock ?wp = clock w0" "redisUp ?wp" using up fld[of e u cds pl pre1 w0] by simp_all
  have cc: "checkConditions (rt e) (conditions r) (JObj (amoEventEntries u leadId ld cds pl))"
    using first by (simp add: amoDispatches_def)
  have ne: "\<not> cache_exists ?wp key" using first key by (auto simp add: amoDispatches_def)
  have st1: "snd (amoRuleStep e u leadId ld cds pl r ?wp)
      = amoDispatch e u (amoEventEntries u leadId ld cds pl) r key ?wp"
    using amoRuleStep_cases[OF key ld, of e cds pl ?wp] cc ne by simp
  have m1: "markedUntil (snd (amoRuleStep e u leadId ld cds pl r ?wp)) key (clock w0 + WEBHOOK_DEDUP_TTL)"
    unfolding st1 using amoDispatch_marks[of ?wp e u _ r key] fp by simp
  have c1: "clock (snd (amoRuleStep e u leadId ld cds pl r ?wp)) = clock w0"
    unfolding st1 by (simp add: amoDispatch_fields fp)
  let ?w1 = "snd (amoRuleLoop e u leadId ld cds pl (pre1 @ r # post1) w0)"
  have w1: "?w1 = snd (amoRuleLoop e u leadId ld cds pl post1
                    (snd (amoRuleStep e u leadId ld cds pl r ?wp)))"
    by (simp only: app cns)
  have m2: "markedUntil ?w1 key (clock w0 + WEBHOOK_DEDUP_TTL)"
    unfolding w1 using m1 c1 by (intro amoRuleLoop_keeps[OF s ld]) simp_all
  have "markedUntil w2 key (clock w0 + WEBHOOK_DEDUP_TTL)"
    using m2 st2 by (simp add: markedUntil_def)
  then have m3: "markedUntil w2 key (Suc (clock w2))"
    using t2 by (auto simp add: markedUntil_def)
  let ?wq = "snd (amoRuleLoop e2 u leadId ld cds pl pre2 w2)"
  have m4: "markedUntil ?wq key (Suc (clock w2))"
    using m3 by (intro amoRuleLoop_keeps[OF s ld]) (simp_all add: WEBHOOK_DEDUP_TTL_def)
  have fq: "redisUp ?wq" "clock ?wq = clock w2" using up2 fld[of e2 u cds pl pre2 w2] by simp_all
  have ex: "cache_exists ?wq key" using m4 fq by (simp add: cache_exists_marked)
  have st: "snd (amoRuleStep e2 u leadId ld cds pl r ?wq)
      = logAt LInfo (JStr u) (AmoRuleAlreadyProcessed (ruleId r))
               (logAt LInfo (JStr u) (AmoRuleMatches (ruleId r))
                 (logAt LInfo (JStr u) (AmoCheckRule (ruleId r)) ?wq))"
    using amoRuleStep_cases[OF key ld, of e2 cds pl ?wq] cc2 ex by simp
  have lp: "snd (amoRuleLoop e2 u leadId ld cds pl (pre2 @ r # post2) w2)
      = snd (amoRuleLoop e2 u leadId ld cds pl post2 (snd (amoRuleStep e2 u leadId ld cds pl r ?wq)))"
    by (simp only: app cns)
  show ?thesis using ex st lp by simp
qed

text \<open>
  Claim C1, as the code has it. A rule was dispatched by the first processing of an
  event (its conditions matched, its key was not marked, it passed the relevance
  filter) while Redis answered. A second processing of the same event starts less than
  600 seconds after the first, with Redis answering and the entry of the rule's key
  still the one the first processing left (whatever else changed in Redis), and the
  rule's conditions match again. Then the rule's iteration finds the key marked, logs
  that the rule is already processed and does nothing else: no adapter call, no counter
  increment. The first conjunct is the LPTracker loop, the second the AmoCRM loop.
\<close>

theorem idempotent_suppression:
  "(redisUp w0 \<and> lpDedupKey u wd r = Some key
      \<and> lpDispatches e u wd r (lpRuleLoop e u wd pre1 w0)
      \<and> redisUp w2
      \<and> map_of (redisStore w2) (''crm:'' @ key)
          = map_of (redisStore (lpRuleLoop e u wd (pre1 @ r # post1) w0)) (''crm:'' @ key)
      \<and> clock w2 < clock w0 + WEBHOOK_DEDUP_TTL
      \<and> checkConditions (rt e2) (conditions r) wd
    \<longrightarrow> cache_exists (lpRuleLoop e2 u wd pre2 w2) key
        \<and> lpRuleStep e2 u wd r (lpRuleLoop e2 u wd pre2 w2)
            = logAt LInfo (JStr u) (LpRuleAlreadyProcessed (ruleId r)) (lpRuleLoop e2 u wd pre2 w2)
        \<and> syncCalls (lpRuleStep e2 u wd r (lpRuleLoop e2 u wd pre2 w2))
            = syncCalls (lpRuleLoop e2 u wd pre2 w2)
        \<and> execCount (lpRuleStep e2 u wd r (lpRuleLoop e2 u wd pre2 w2))
            = execCount (lpRuleLoop e2 u wd pre2 w2)
        \<and> lpRuleLoop e2 u wd (pre2 @ r # post2) w2
            = lpRuleLoop e2 u wd post2
                (logAt LInfo (JStr u) (LpRuleAlreadyProcessed (ruleId r))
                   (lpRuleLoop e2 u wd pre2 w2)))
   \<and> (redisUp v0 \<and> amoDedupKey u leadId r = Some akey \<and> getProp ld ''pipeline_id'' \<noteq> None
      \<and> amoDispatches e u leadId ld cds pl r (snd (amoRuleLoop e u leadId ld cds pl pre1 v0))
      \<and> redisUp v2
      \<and> map_of (redisStore v2) (''crm:'' @ akey)
          = map_of (redisStore (snd (amoRuleLoop e u leadId ld cds pl (pre1 @ r # post1) v0)))
              (''crm:'' @ akey)
      \<and> clock v2 < clock v0 + WEBHOOK_DEDUP_TTL
      \<and> checkConditions (rt e2) (conditions r) (JObj (amoEventEntries u leadId ld cds pl))
    \<longrightarrow> cache_exists (snd (amoRuleLoop e2 u leadId ld cds pl pre2 v2)) akey
        \<and> snd (amoRuleStep e2 u leadId ld cds pl r (snd (amoRuleLoop e2 u leadId ld cds pl pre2 v2)))
            = logAt LInfo (JStr u) (AmoRuleAlreadyProcessed (ruleId r))
                (logAt LInfo (JStr u) (AmoRuleMatches (ruleId r))
                  (logAt LInfo (JStr u) (AmoCheckRule (ruleId r))
                    (snd (amoRuleLoop e2 u leadId ld cds pl pre2 v2))))
        \<and> syncCalls (snd (amoRuleStep e2 u leadId ld cds pl r
                            (snd (amoRuleLoop e2 u leadId ld cds pl pre2 v2))))
            = syncCalls (snd (amoRuleLoop e2 u leadId ld cds pl pre2 v2))
        \<and> execCount (snd (amoRuleStep e2 u leadId ld cds pl r
                            (snd (amoRuleLoop e2 u leadId ld cds pl pre2 v2))))
            = execCount (snd (amoRuleLoop e2 u leadId ld cds pl pre2 v2))
        \<and> snd (amoRuleLoop e2 u leadId ld cds pl (pre2 @ r # post2) v2)
            = snd (amoRuleLoop e2 u leadId ld cds pl post2
                (logAt LInfo (JStr u) (AmoRuleAlreadyProcessed (ruleId r))
                  (logAt LInfo (JStr u) (AmoRuleMatches (ruleId r))
                    (logAt LInfo (JStr u) (AmoCheckRule (ruleId r))
                      (snd (amoRuleLoop e2 u leadId ld cds pl pre2 v2)))))))"
proof (intro conjI impI)
  assume a: "redisUp w0 \<and> lpDedupKey u wd r = Some key
      \<and> lpDispatches e u wd r (lpRuleLoop e u wd pre1 w0)
      \<and> redisUp w2
      \<and> map_of (redisStore w2) (''crm:'' @ key)
          = map_of (redisStore (lpRuleLoop e u wd (pre1 @ r # post1) w0)) (''crm:'' @ key)
      \<and> clock w2 < clock w0 + WEBHOOK_DEDUP_TTL
      \<and> checkConditions (rt e2) (conditions r) wd"
  then have i: "cache_exists (lpRuleLoop e2 u wd pre2 w2) key
       \<and> lpRuleStep e2 u wd r (lpRuleLoop e2 u wd pre2 w2)
           = logAt LInfo (JStr u) (LpRuleAlreadyProcessed (ruleId r)) (lpRuleLoop e2 u wd pre2 w2)
       \<and> lpRuleLoop e2 u wd (pre2 @ r # post2) w2
           = lpRuleLoop e2 u wd post2
               (logAt LInfo (JStr u) (LpRuleAlreadyProcessed (ruleId r)) (lpRuleLoop e2 u wd pre2 w2))"
    using lp_idempotent[of w0 u wd r key e pre1 w2 post1 e2 pre2 post2] by blast
  from i show "cache_exists (lpRuleLoop e2 u wd pre2 w2) key" by blast
  from i show "lpRuleStep e2 u wd r (lpRuleLoop e2 u wd pre2 w2)
           = logAt LInfo (JStr u) (LpRuleAlreadyProcessed (ruleId r)) (lpRuleLoop e2 u wd pre2 w2)"
    by blast
  from i show "syncCalls (lpRuleStep e2 u wd r (lpRuleLoop e2 u wd pre2 w2))
            = syncCalls (lpRuleLoop e2 u wd pre2 w2)" by simp
  from i show "execCount (lpRuleStep e2 u wd r (lpRuleLoop e2 u wd pre2 w2))
            = execCount (lpRuleLoop e2 u wd pre2 w2)" by simp
  from i show "lpRuleLoop e2 u wd (pre2 @ r # post2) w2
           = lpRuleLoop e2 u wd post2
               (logAt LInfo (JStr u) (LpRuleAlreadyProcessed (ruleId r)) (lpRuleLoop e2 u wd pre2 w2))"
    by blast
next
  assume a: "redisUp v0 \<and> amoDedupKey u leadId r = Some akey \<and> getProp ld ''pipeline_id'' \<noteq> None
      \<and> amoDispatches e u leadId ld cds pl r (snd (amoRuleLoop e u leadId ld cds pl pre1 v0))
      \<and> redisUp v2
      \<and> map_of (redisStore v2) (''crm:'' @ akey)
          = map_of (redisStore (snd (amoRuleLoop e u leadId ld cds pl (pre1 @ r # post1) v0)))
              (''crm:'' @ akey)
      \<and> clock v2 < clock v0 + WEBHOOK_DEDUP_TTL
      \<and> checkConditions (rt e2) (conditions r) (JObj (amoEventEntries u leadId ld cds pl))"
  then have i: "cache_exists (snd (amoRuleLoop e2 u leadId ld cds pl pre2 v2)) akey
       \<and> snd (amoRuleStep e2 u leadId ld cds pl r (snd (amoRuleLoop e2 u leadId ld cds pl pre2 v2)))
           = logAt LInfo (JStr u) (AmoRuleAlreadyProcessed (ruleId r))
               (logAt LInfo (JStr u) (AmoRuleMatches (ruleId r))
                 (logAt LInfo (JStr u) (AmoCheckRule (ruleId r))
                   (snd (amoRuleLoop e2 u leadId ld cds pl pre2 v2))))
       \<and> snd (amoRuleLoop e2 u leadId ld cds pl (pre2 @ r # post2) v2)
           = snd (amoRuleLoop e2 u leadId ld cds pl post2
               (logAt LInfo (JStr u) (AmoRuleAlreadyProcessed (ruleId r))
                 (logAt LInfo (JStr u) (AmoRuleMatches (ruleId r))
                   (logAt LInfo (JStr u) (AmoCheckRule (ruleId r))
                     (snd (amoRuleLoop e2 u leadId ld cds pl pre2 v2))))))"
    using amo_idempotent[of v0 u leadId r akey ld e cds pl pre1 v2 post1 e2 pre2 post2] by blast
  from i show "cache_exists (snd (amoRuleLoop e2 u leadId ld cds pl pre2 v2)) akey" by blast
  from i show "snd (amoRuleStep e2 u leadId ld cds pl r (snd (amoRuleLoop e2 u leadId ld cds pl pre2 v2)))
           = logAt LInfo (JStr u) (AmoRuleAlreadyProcessed (ruleId r))
               (logAt LInfo (JStr u) (AmoRuleMatches (ruleId r))
                 (logAt LInfo (JStr u) (AmoCheckRule (ruleId r))
                   (snd (amoRuleLoop e2 u leadId ld cds pl pre2 v2))))" by blast
  from i show "syncCalls (snd (amoRuleStep e2 u leadId ld cds pl r
                            (snd (amoRuleLoop e2 u leadId ld cds pl pre2 v2))))
            = syncCalls (snd (amoRuleLoop e2 u leadId ld cds pl pre2 v2))" by simp
  from i show "execCount (snd (amoRuleStep e2 u leadId ld cds pl r
                            (snd (amoRuleLoop e2 u leadId ld cds pl pre2 v2))))
            = execCount (snd (amoRuleLoop e2 u leadId ld cds pl pre2 v2))" by simp
  from i show "snd (amoRuleLoop e2 u leadId ld cds pl (pre2 @ r # post2) v2)
           = snd (amoRuleLoop e2 u leadId ld cds pl post2
               (logAt LInfo (JStr u) (AmoRuleAlreadyProcessed (ruleId r))
                 (logAt LInfo (JStr u) (AmoRuleMatches (ruleId r))
                   (logAt LInfo (JStr u) (AmoCheckRule (ruleId r))
                     (snd (amoRuleLoop e2 u leadId ld cds pl pre2 v2))))))" by blast
qed

lemma cache_set_eq: "cache_set k v t w = setWithTTL k v t w"
  by (simp add: cache_set_def setWithTTL_def)

lemma cache_get_logAt [simp]: "cache_get (logAt l u m w) k = cache_get w k"
  by (simp add: cache_get_def)

lemma lpStart_fields [simp]:
  "clock (lpStart w) = clock w" "redisUp (lpStart w) = redisUp w"
  "execCount (lpStart w) = execCount w" "syncCalls (lpStart w) = syncCalls w"
  by (simp_all add: lpStart_def)

lemma lpStart_entry:
  "k \<noteq> ''crm:sync_rules:u1'' \<Longrightarrow> map_of (redisStore (lpStart w)) k = map_of (redisStore w) k"
  by (simp add: lpStart_def cache_set_def map_of_setex)

lemma lpStart_exists:
  "k \<noteq> ''sync_rules:u1'' \<Longrightarrow> cache_exists (lpStart w) k = cache_exists w k"
  by (simp add: lpStart_def cache_set_eq cache_exists_setWithTTL_other)

lemma lp_run_miss:
  assumes "cache_get w ''sync_rules:u1'' = None"
  shows "processLpTrackerWebhookDirect brokenEnv stage142 w
           = (None, lpRuleStep brokenEnv ''u1'' stage142 rule7 (lpStart w))"
  using assms
  by (simp add: processLpTrackerWebhookDirect_def lpProcessAttempt_def stage142_def
      findUserByProjectId_def brokenEnv_def getCachedSyncRules_def Let_def show_int_small
      lpStart_def)

lemma lp_run_dispatch:
  assumes "cache_get w ''sync_rules:u1'' = None" "\<not> cache_exists w ''webhook:u1:42:7:default''"
  shows "snd (processLpTrackerWebhookDirect brokenEnv stage142 w)
           = lpDispatch brokenEnv ''u1'' stage142 rule7 ''webhook:u1:42:7:default'' (lpStart w)"
proof -
  have "lpDispatches brokenEnv ''u1'' stage142 rule7 (lpStart w)"
    using assms(2)
    by (simp add: lpDispatches_def env_fields cc_rule78 keys_rule78 relevant_rule78 lpStart_exists)
  from lpRuleStep_dispatch[OF this keys_rule78(1)] show ?thesis
    by (simp add: lp_run_miss[OF assms(1)])
qed

lemma lp_dispatch_counts:
  "execCount (lpDispatch brokenEnv ''u1'' stage142 rule7 ''webhook:u1:42:7:default'' (lpStart w)) 7
     = Suc (execCount w 7)"
  "length (syncCalls (lpDispatch brokenEnv ''u1'' stage142 rule7 ''webhook:u1:42:7:default'' (lpStart w)))
     = Suc (length (syncCalls w))"
proof -
  show "execCount (lpDispatch brokenEnv ''u1'' stage142 rule7 ''webhook:u1:42:7:default'' (lpStart w)) 7
     = Suc (execCount w 7)"
    by (simp add: lpDispatch_execCount env_fields rule_ids)
  from build_stage142 obtain sr where
    "buildSyncRecord (rt brokenEnv) (JObj [(''type'', JStr ''sync_to_amocrm'')])
       (JObj (lpEventEntries ''u1'' stage142)) = Some sr"
    by (auto simp add: env_fields)
  from executeActions_syncToAmo[OF this]
  show "length (syncCalls (lpDispatch brokenEnv ''u1'' stage142 rule7 ''webhook:u1:42:7:default'' (lpStart w)))
     = Suc (length (syncCalls w))"
    by (simp add: lpDispatch_syncCalls rule_fields)
qed

lemma firstRunLp_eq:
  "firstRunLp = lpDispatch brokenEnv ''u1'' stage142 rule7 ''webhook:u1:42:7:default'' (lpStart world0)"
  unfolding firstRunLp_def
  by (rule lp_run_dispatch) (simp_all add: cache_get_def world0_def redis_lookup_def cache_exists_def)

lemma firstRunLp_facts:
  "execCount firstRunLp 7 = 1" "length (syncCalls firstRunLp) = 1"
  "clock firstRunLp = 1000" "redisUp firstRunLp"
  "map_of (redisStore firstRunLp) ''crm:sync_rules:u1'' = Some (RulesVal [rule7], 1300)"
proof -
  show "execCount firstRunLp 7 = 1" "length (syncCalls firstRunLp) = 1"
    "clock firstRunLp = 1000" "redisUp firstRunLp"
    by (simp_all add: firstRunLp_eq lp_dispatch_counts world0_fields rule_fields lpDispatch_fields)
  show "map_of (redisStore firstRunLp) ''crm:sync_rules:u1'' = Some (RulesVal [rule7], 1300)"
    by (simp add: firstRunLp_eq lpDispatch_store setWithTTL_def map_of_setex lpStart_def
        cache_set_def RULES_CACHE_TTL_def world0_fields)
qed

text \<open>
  Claim C1 as stated fails. Rule 7 is dispatched by a first run for lead 42 at second
  1000. When \<open>invalidateUserCache\<close> runs before the event is delivered again, still at
  second 1000, the second run dispatches and counts the rule again; and while Redis is
  down, two runs in a row both dispatch and count it. The conditions of the rule match
  in every run.
\<close>

theorem idempotent_suppression_counterexample:
  "checkConditions (rt brokenEnv) (conditions rule7) stage142
   \<and> execCount firstRunLp 7 = 1 \<and> length (syncCalls firstRunLp) = 1
   \<and> clock (invalidateUserCache ''u1'' firstRunLp) = 1000
   \<and> execCount flushedRunLp 7 = 2 \<and> length (syncCalls flushedRunLp) = 2
   \<and> execCount downFirstRunLp 7 = 1 \<and> length (syncCalls downFirstRunLp) = 1
   \<and> clock downFirstRunLp = 1000
   \<and> execCount downSecondRunLp 7 = 2 \<and> length (syncCalls downSecondRunLp) = 2"
proof -
  have c0: "checkConditions (rt brokenEnv) (conditions rule7) stage142"
    by (simp add: env_fields cc_rule78)
  have pl: "plainId ''u1''" by (simp add: backslash_def)
  have g: "generateWebhookKey ''u1'' ''42'' 7 JUndef = Some ''webhook:u1:42:7:default''"
    by (simp add: generateWebhookKey_default show_int_small)
  let ?inv = "invalidateUserCache ''u1'' firstRunLp"
  have m: "cache_get ?inv ''sync_rules:u1'' = None"
    using config_keys_match(1)[OF pl]
    by (simp add: cache_get_def redis_lookup_invalidate invalidateUserCache_fields)
  have fl: "flushedRunLp
      = lpDispatch brokenEnv ''u1'' stage142 rule7 ''webhook:u1:42:7:default'' (lpStart ?inv)"
    unfolding flushedRunLp_def
    by (rule lp_run_dispatch) (rule m, rule not_exists_after_invalidate[OF pl g])
  have sc: "syncCalls ?inv = syncCalls firstRunLp"
    by (simp add: invalidateUserCache_def)
  have c3: "clock ?inv = 1000" by (simp add: invalidateUserCache_fields firstRunLp_facts)
  have c4: "execCount flushedRunLp 7 = 2" "length (syncCalls flushedRunLp) = 2"
    by (simp_all add: fl lp_dispatch_counts invalidateUserCache_fields firstRunLp_facts sc)
  let ?down = "world0\<lparr>redisUp := False\<rparr>"
  have d1: "downFirstRunLp
      = lpDispatch brokenEnv ''u1'' stage142 rule7 ''webhook:u1:42:7:default'' (lpStart ?down)"
    unfolding downFirstRunLp_def
    by (rule lp_run_dispatch) (simp_all add: cache_get_def cache_exists_def)
  have c5: "execCount downFirstRunLp 7 = 1" "length (syncCalls downFirstRunLp) = 1"
    "clock downFirstRunLp = 1000" "\<not> redisUp downFirstRunLp"
    by (simp_all add: d1 lp_dispatch_counts lpDispatch_fields world0_def)
  have d2: "downSecondRunLp
      = lpDispatch brokenEnv ''u1'' stage142 rule7 ''webhook:u1:42:7:default'' (lpStart downFirstRunLp)"
    unfolding downSecondRunLp_def
    using c5(4) by (intro lp_run_dispatch) (simp_all add: cache_get_def cache_exists_def)
  have c6: "execCount downSecondRunLp 7 = 2" "length (syncCalls downSecondRunLp) = 2"
    by (simp_all add: d2 lp_dispatch_counts c5)
  show ?thesis
    by (intro conjI) (fact c0, fact firstRunLp_facts(1), fact firstRunLp_facts(2), fact c3,
        fact c4(1), fact c4(2), fact c5(1), fact c5(2), fact c5(3), fact c6(1), fact c6(2))
qed

lemma amo_run:
  "snd (processLeadRules amoEnv ''u1'' (JStr ''77'') lead142 [] (JObj []) w)
     = snd (amoRuleStep amoEnv ''u1'' (JStr ''77'') lead142 [] (JObj []) amoRule7
              (logAt LInfo (JStr ''u1'') (AmoCheckingRules (Suc 0)) w))"
proof -
  have js: "js_String (JStr ''77'') = Some ''77''" by simp
  have nm: "getProp lead142 ''name'' = Some JUndef" by (simp add: lead142_def)
  obtain w' where st: "amoRuleStep amoEnv ''u1'' (JStr ''77'') lead142 [] (JObj []) amoRule7
              (logAt LInfo (JStr ''u1'') (AmoCheckingRules (Suc 0)) w) = (None, w')"
    using amoRuleStep_returns_any[OF js, of amoEnv "''u1''" lead142 "[]" "JObj []" amoRule7
        "logAt LInfo (JStr ''u1'') (AmoCheckingRules (Suc 0)) w"]
    by (cases "amoRuleStep amoEnv ''u1'' (JStr ''77'') lead142 [] (JObj []) amoRule7
              (logAt LInfo (JStr ''u1'') (AmoCheckingRules (Suc 0)) w)") simp
  show ?thesis
    by (simp add: processLeadRules_def leadRulesAttempt_def dormant_fields nm st)
qed

lemma amoRule7_facts:
  "ruleId amoRule7 = 7" "actions amoRule7 = syncToAmo"
  "amoDedupKey ''u1'' (JStr ''77'') amoRule7 = Some ''webhook:u1:77:7:default''"
  "checkConditions exampleRuntime (conditions amoRule7) (JObj (amoEventEntries ''u1'' (JStr ''77'') lead142 [] (JObj [])))"
  using keys_rule78(3) cc_rule78_amo(1)[of "''u1''" "JStr ''77''" "[]" "JObj []"]
  by (simp_all add: amoRule7_def rule_ids rule_fields amoDedupKey_def)

lemma firstRunAmo_eq:
  "firstRunAmo = amoDispatch amoEnv ''u1'' (amoEventEntries ''u1'' (JStr ''77'') lead142 [] (JObj [])) amoRule7 ''webhook:u1:77:7:default''
                   (logAt LInfo (JStr ''u1'') (AmoCheckingRules (Suc 0)) world0)"
  using amoRuleStep_cases[OF amoRule7_facts(3) lead142_pipeline, of amoEnv "[]" "JObj []"
      "logAt LInfo (JStr ''u1'') (AmoCheckingRules (Suc 0)) world0"]
  by (simp add: firstRunAmo_def amo_run dormant_fields amoRule7_facts world0_fields)

lemma firstRunAmo_facts:
  "execCount firstRunAmo 7 = 1" "map fst (syncCalls firstRunAmo) = [AmoCrm]"
  "clock firstRunAmo = 1000" "redisUp firstRunAmo"
proof -
  show "execCount firstRunAmo 7 = 1" "clock firstRunAmo = 1000" "redisUp firstRunAmo"
    by (simp_all add: firstRunAmo_eq amoDispatch_execCount amoDispatch_fields dormant_fields
        amoRule7_facts world0_fields)
  have "syncCalls firstRunAmo = plannedCalls exampleRuntime (JStr ''u1'') (JObj (amoEventEntries ''u1'' (JStr ''77'') lead142 [] (JObj []))) (actionList syncToAmo)"
    using amoDispatch_calls[of amoRule7 amoEnv "''u1''" "JStr ''77''" lead142 "[]" "JObj []"
        "''webhook:u1:77:7:default''" "logAt LInfo (JStr ''u1'') (AmoCheckingRules (Suc 0)) world0"]
      actionList_syncToAmo(2)
    by (simp add: firstRunAmo_eq amoRule7_facts dormant_fields rule_fields)
  then show "map fst (syncCalls firstRunAmo) = [AmoCrm]"
    using planned_syncToAmo[OF build_lead142] by simp
qed

text \<open>
  Claim C1 at full runs. The first LPTracker run dispatches rule 7 once. The second run,
  599 seconds later, finds the rules cache expired and rewrites it, so its loop starts
  from other Redis contents than the first run left; the entry of the rule's key is
  untouched, and the run only logs that the rule is already processed: the counter and
  the adapter calls stay as they were. The same for two AmoCRM runs.
\<close>

theorem idempotent_suppression_witness:
  "lpDispatches brokenEnv ''u1'' stage142 rule7 (lpStart world0)
   \<and> execCount firstRunLp 7 = 1 \<and> length (syncCalls firstRunLp) = 1
   \<and> map_of (redisStore firstRunLp) ''crm:sync_rules:u1'' = Some (RulesVal [rule7], 1300)
   \<and> map_of (redisStore (lpStart (firstRunLp\<lparr>clock := 1599\<rparr>))) ''crm:sync_rules:u1''
       = Some (RulesVal [rule7], 1899)
   \<and> secondRunLp = logAt LInfo (JStr ''u1'') (LpRuleAlreadyProcessed 7)
                      (lpStart (firstRunLp\<lparr>clock := 1599\<rparr>))
   \<and> execCount secondRunLp 7 = 1 \<and> syncCalls secondRunLp = syncCalls firstRunLp
   \<and> execCount firstRunAmo 7 = 1 \<and> map fst (syncCalls firstRunAmo) = [AmoCrm]
   \<and> secondRunAmo = logAt LInfo (JStr ''u1'') (AmoRuleAlreadyProcessed 7)
                       (logAt LInfo (JStr ''u1'') (AmoRuleMatches 7)
                         (logAt LInfo (JStr ''u1'') (AmoCheckRule 7)
                           (logAt LInfo (JStr ''u1'') (AmoCheckingRules (Suc 0))
                              (firstRunAmo\<lparr>clock := 1599\<rparr>))))
   \<and> execCount secondRunAmo 7 = 1 \<and> syncCalls secondRunAmo = syncCalls firstRunAmo"
proof -
  let ?key = "''webhook:u1:42:7:default''"
  let ?x = "firstRunLp\<lparr>clock := 1599\<rparr>"
  have d0: "lpDispatches brokenEnv ''u1'' stage142 rule7 (lpStart world0)"
    by (simp add: lpDispatches_def env_fields cc_rule78 keys_rule78 relevant_rule78 lpStart_exists
        world0_fields)
  have first: "lpRuleLoop brokenEnv ''u1'' stage142 ([] @ rule7 # []) (lpStart world0) = firstRunLp"
    using lpRuleStep_dispatch[OF d0 keys_rule78(1)] by (simp add: firstRunLp_eq)
  have miss: "cache_get ?x ''sync_rules:u1'' = None"
    by (simp add: cache_get_def redis_lookup_def firstRunLp_facts)
  have second: "secondRunLp = lpRuleStep brokenEnv ''u1'' stage142 rule7 (lpStart ?x)"
    by (simp add: secondRunLp_def lp_run_miss[OF miss])
  have entry: "map_of (redisStore (lpStart ?x)) (''crm:'' @ ?key)
      = map_of (redisStore (lpRuleLoop brokenEnv ''u1'' stage142 ([] @ rule7 # []) (lpStart world0)))
          (''crm:'' @ ?key)"
    unfolding first by (simp add: lpStart_entry)
  have lp: "lpRuleStep brokenEnv ''u1'' stage142 rule7 (lpStart ?x)
      = logAt LInfo (JStr ''u1'') (LpRuleAlreadyProcessed 7) (lpStart ?x)"
    using idempotent_suppression[where ?w0.0 = "lpStart world0" and u = "''u1''" and wd = stage142
        and r = rule7 and key = ?key and e = brokenEnv and ?pre1.0 = "[]"
        and ?w2.0 = "lpStart ?x" and ?post1.0 = "[]" and ?e2.0 = brokenEnv and ?pre2.0 = "[]"
        and ?post2.0 = "[]", THEN conjunct1]
      d0 keys_rule78(1) entry cc_rule78(1)
    by (simp add: env_fields WEBHOOK_DEDUP_TTL_def world0_fields firstRunLp_facts rule_ids
        del: lpRuleLoop_Cons)
  have c5: "map_of (redisStore (lpStart ?x)) ''crm:sync_rules:u1'' = Some (RulesVal [rule7], 1899)"
    by (simp add: lpStart_def cache_set_def map_of_setex firstRunLp_facts RULES_CACHE_TTL_def)
  have c6: "secondRunLp = logAt LInfo (JStr ''u1'') (LpRuleAlreadyProcessed 7) (lpStart ?x)"
    by (simp add: second lp)
  have c7: "execCount secondRunLp 7 = 1" "syncCalls secondRunLp = syncCalls firstRunLp"
    by (simp_all add: c6 firstRunLp_facts)
  let ?akey = "''webhook:u1:77:7:default''"
  let ?y = "firstRunAmo\<lparr>clock := 1599\<rparr>"
  let ?a0 = "logAt LInfo (JStr ''u1'') (AmoCheckingRules (Suc 0)) world0"
  let ?a2 = "logAt LInfo (JStr ''u1'') (AmoCheckingRules (Suc 0)) ?y"
  have js: "js_String (JStr ''77'') = Some ''77''" by simp
  have ad0: "amoDispatches amoEnv ''u1'' (JStr ''77'') lead142 [] (JObj []) amoRule7 ?a0"
    by (simp add: amoDispatches_def dormant_fields amoRule7_facts world0_fields)
  have afirst: "snd (amoRuleLoop amoEnv ''u1'' (JStr ''77'') lead142 [] (JObj []) ([] @ amoRule7 # []) ?a0)
      = firstRunAmo"
    by (simp add: amoRuleLoop_single[OF js] firstRunAmo_def amo_run del: amoRuleLoop.simps(2))
  have aentry: "map_of (redisStore ?a2) (''crm:'' @ ?akey)
      = map_of (redisStore (snd (amoRuleLoop amoEnv ''u1'' (JStr ''77'') lead142 [] (JObj [])
                                   ([] @ amoRule7 # []) ?a0))) (''crm:'' @ ?akey)"
    unfolding afirst by simp
  have am: "snd (amoRuleStep amoEnv ''u1'' (JStr ''77'') lead142 [] (JObj []) amoRule7 ?a2)
      = logAt LInfo (JStr ''u1'') (AmoRuleAlreadyProcessed 7)
          (logAt LInfo (JStr ''u1'') (AmoRuleMatches 7) (logAt LInfo (JStr ''u1'') (AmoCheckRule 7) ?a2))"
    using idempotent_suppression[where ?v0.0 = ?a0 and u = "''u1''" and leadId = "JStr ''77''"
        and r = amoRule7 and akey = ?akey and ld = lead142 and e = amoEnv
        and cds = "[]" and pl = "JObj []" and ?pre1.0 = "[]" and ?v2.0 = ?a2
        and ?post1.0 = "[]" and ?e2.0 = amoEnv and ?pre2.0 = "[]" and ?post2.0 = "[]",
        THEN conjunct2]
      ad0 amoRule7_facts aentry lead142_pipeline
    by (simp add: dormant_fields WEBHOOK_DEDUP_TTL_def world0_fields firstRunAmo_facts
        del: amoRuleLoop.simps(2))
  have c10: "secondRunAmo = logAt LInfo (JStr ''u1'') (AmoRuleAlreadyProcessed 7)
                       (logAt LInfo (JStr ''u1'') (AmoRuleMatches 7)
                         (logAt LInfo (JStr ''u1'') (AmoCheckRule 7) ?a2))"
    by (simp add: secondRunAmo_def amo_run am)
  have c11: "execCount secondRunAmo 7 = 1" "syncCalls secondRunAmo = syncCalls firstRunAmo"
    by (simp_all add: c10 firstRunAmo_facts)
  show ?thesis
    by (intro conjI) (fact d0, fact firstRunLp_facts(1), fact firstRunLp_facts(2),
        fact firstRunLp_facts(5), fact c5, fact c6, fact c7(1), fact c7(2),
        fact firstRunAmo_facts(1), fact firstRunAmo_facts(2), fact c10, fact c11(1), fact c11(2))
qed

end
